theory Spec2Isabelle
  imports Main "HOL-Library.AList"
begin

section \<open>Python values, exceptions and dictionaries\<close>

text \<open>
  The payloads a child sensor stores are Python scalars. Truthiness is Python's:
  \<^verbatim>\<open>None\<close>, \<^verbatim>\<open>False\<close>, \<^verbatim>\<open>0\<close> and the empty string are falsy.
\<close>

datatype pyval = PNone | PBool bool | PInt int | PStr string

fun truthy :: "pyval \<Rightarrow> bool" where
  "truthy PNone = False"
| "truthy (PBool b) = b"
| "truthy (PInt n) = (n \<noteq> 0)"
| "truthy (PStr s) = (s \<noteq> [])"

text \<open>The exceptions that the methods of \<^verbatim>\<open>sensor.py\<close> raise or let through.\<close>

datatype error = KeyError | AttributeError | Invalid | OtherError

text \<open>
  A Python \<^verbatim>\<open>dict\<close> is an insertion-ordered association list: \<^verbatim>\<open>d[k] = v\<close> is
  \<^const>\<open>AList.update\<close> (replace in place, or append a new key at the end),
  \<^verbatim>\<open>k in d\<close> is membership in the keys, \<^verbatim>\<open>d[k]\<close> raises \<^verbatim>\<open>KeyError\<close> on a
  missing key and \<^verbatim>\<open>d.get(k)\<close> gives \<^verbatim>\<open>None\<close> there.
\<close>

type_synonym ('k, 'v) dict = "('k \<times> 'v) list"

definition contains :: "('k, 'v) dict \<Rightarrow> 'k \<Rightarrow> bool" where
  "contains d k = (k \<in> set (map fst d))"

definition getitem :: "('k, 'v) dict \<Rightarrow> 'k \<Rightarrow> error + 'v" where
  "getitem d k = (case map_of d k of None \<Rightarrow> Inl KeyError | Some v \<Rightarrow> Inr v)"

definition setitem :: "('k, 'v) dict \<Rightarrow> 'k \<Rightarrow> 'v \<Rightarrow> ('k, 'v) dict" where
  "setitem d k v = AList.update k v d"

definition dict_get :: "('k, pyval) dict \<Rightarrow> 'k \<Rightarrow> pyval" where
  "dict_get d k = (case map_of d k of None \<Rightarrow> PNone | Some v \<Rightarrow> v)"

section \<open>ChildSensor\<close>

text \<open>
  \<^verbatim>\<open>class ChildSensor\<close>: the attributes \<^verbatim>\<open>id\<close>, \<^verbatim>\<open>type\<close>, \<^verbatim>\<open>description\<close> and
  \<^verbatim>\<open>values\<close> (suffixed, since \<open>id\<close> is a HOL constant). Child ids, sensor types and
  value types are the integers of the protocol's enumerations.
\<close>

record ChildSensor =
  id_c :: int
  type_c :: int
  description_c :: string
  values_c :: "(int, pyval) dict"

definition ChildSensor_init :: "int \<Rightarrow> int \<Rightarrow> string \<Rightarrow> ChildSensor" where
  "ChildSensor_init child_id child_type description =
     \<lparr>id_c = child_id, type_c = child_type, description_c = description, values_c = []\<rparr>"

section \<open>Sensor\<close>

text \<open>
  \<^verbatim>\<open>class Sensor\<close>. The private attributes \<^verbatim>\<open>_battery_level\<close>,
  \<^verbatim>\<open>_protocol_version\<close> and \<^verbatim>\<open>_heartbeat\<close> are the fields with the suffix
  \<open>_attr\<close>; \<^verbatim>\<open>type\<close> is \<open>type_s\<close>. Every \<^verbatim>\<open>ChildSensor\<close> that the class stores
  in \<^verbatim>\<open>children\<close> or \<^verbatim>\<open>new_state\<close> is created by the class itself
  and referenced from one dictionary only, so the objects are modelled by value.
\<close>

record Sensor =
  sensor_id :: pyval
  children :: "(int, ChildSensor) dict"
  type_s :: pyval
  sketch_name :: pyval
  sketch_version :: pyval
  battery_level_attr :: pyval
  protocol_version_attr :: pyval
  heartbeat_attr :: pyval
  new_state :: "(int, ChildSensor) dict"
  queue :: "pyval list"
  reboot :: bool

definition Sensor_init :: "pyval \<Rightarrow> Sensor" where
  "Sensor_init sid =
     \<lparr>sensor_id = sid, children = [], type_s = PNone, sketch_name = PNone,
      sketch_version = PNone, battery_level_attr = PInt 0,
      protocol_version_attr = PStr ''1.4'', heartbeat_attr = PInt 0,
      new_state = [], queue = [], reboot = False\<rparr>"

text \<open>
  A method that mutates the sensor returns what it returns or raises, paired with the
  sensor as the call leaves it.
\<close>

type_synonym 'r outcome = "(error + 'r) \<times> Sensor"

definition battery_level :: "Sensor \<Rightarrow> pyval" where
  "battery_level s = battery_level_attr s"

definition heartbeat :: "Sensor \<Rightarrow> pyval" where
  "heartbeat s = heartbeat_attr s"

definition protocol_version :: "Sensor \<Rightarrow> pyval" where
  "protocol_version s = protocol_version_attr s"

definition is_smart_sleep_node :: "Sensor \<Rightarrow> bool" where
  "is_smart_sleep_node s = (new_state s \<noteq> [])"

definition add_child_sensor :: "int \<Rightarrow> int \<Rightarrow> string \<Rightarrow> Sensor \<Rightarrow> int option outcome" where
  "add_child_sensor child_id child_type description s =
     (if contains (children s) child_id then (Inr None, s)
      else (Inr (Some child_id),
            s\<lparr>children := setitem (children s) child_id
                 (ChildSensor_init child_id child_type description)\<rparr>))"

text \<open>
  \<^verbatim>\<open>get_desired_value\<close> reads only. \<^verbatim>\<open>self.children[child_id]\<close> and
  \<^verbatim>\<open>self.new_state[child_id]\<close> are subscripts, so each raises \<^verbatim>\<open>KeyError\<close> on a
  missing key; a stored child is an object, never \<^verbatim>\<open>None\<close>, so neither
  \<^verbatim>\<open>is None\<close> test ever succeeds.
\<close>

definition get_desired_value :: "Sensor \<Rightarrow> int \<Rightarrow> int \<Rightarrow> error + pyval" where
  "get_desired_value s child_id value_type =
     (case getitem (children s) child_id of
        Inl e \<Rightarrow> Inl e
      | Inr actual \<Rightarrow>
          (case (if is_smart_sleep_node s
                 then (case getitem (new_state s) child_id of
                         Inl e \<Rightarrow> Inl e
                       | Inr child \<Rightarrow> Inr (dict_get (values_c child) value_type))
                 else Inr PNone) of
             Inl e \<Rightarrow> Inl e
           | Inr v \<Rightarrow>
               if truthy v then Inr v
               else Inr (dict_get (values_c actual) value_type)))"

text \<open>
  \<^verbatim>\<open>init_smart_sleep_mode\<close> walks \<^verbatim>\<open>self.children.values()\<close> in insertion order.
\<close>

fun init_loop :: "ChildSensor list \<Rightarrow> (int, ChildSensor) dict \<Rightarrow> (int, ChildSensor) dict" where
  "init_loop [] ns = ns"
| "init_loop (child # rest) ns =
     (if contains ns (id_c child) then init_loop rest ns
      else init_loop rest
             (setitem ns (id_c child)
                (ChildSensor_init (id_c child) (type_c child) (description_c child))))"

definition init_smart_sleep_mode :: "Sensor \<Rightarrow> unit outcome" where
  "init_smart_sleep_mode s =
     (Inr (), s\<lparr>new_state := init_loop (map snd (children s)) (new_state s)\<rparr>)"

text \<open>
  \<^verbatim>\<open>update_child_value\<close>: the subscript \<^verbatim>\<open>self.children[child_id]\<close> raises before
  anything is written.
\<close>

definition update_child_value :: "int \<Rightarrow> int \<Rightarrow> pyval \<Rightarrow> Sensor \<Rightarrow> unit outcome" where
  "update_child_value child_id value_type value s =
     (case getitem (children s) child_id of
        Inl e \<Rightarrow> (Inl e, s)
      | Inr child \<Rightarrow>
          (let s1 = s\<lparr>children := setitem (children s) child_id
                        (child\<lparr>values_c := setitem (values_c child) value_type value\<rparr>)\<rparr>
           in if \<not> contains (new_state s1) child_id then (Inr (), s1)
              else (case getitem (new_state s1) child_id of
                      Inl e \<Rightarrow> (Inl e, s1)
                    | Inr new_state_child \<Rightarrow>
                        (Inr (),
                         s1\<lparr>new_state := setitem (new_state s1) child_id
                               (new_state_child\<lparr>values_c :=
                                  setitem (values_c new_state_child) value_type PNone\<rparr>)\<rparr>))))"

section \<open>The collaborators outside \<^verbatim>\<open>sensor.py\<close>\<close>

text \<open>
  \<^verbatim>\<open>sensor.py\<close> imports \<^verbatim>\<open>get_const\<close>, \<^verbatim>\<open>Message\<close> and the three validators
  from sibling modules. They are parameters of the model: a record of functions,
  each of which may raise. A validator of the constant tables takes a payload and
  gives the validated payload or rejects it.
\<close>

type_synonym validator = "pyval \<Rightarrow> pyval option"

type_synonym schema = "(int, validator) dict"

record Const =
  MessageType_set :: int
  S_CUSTOM :: int
  VALID_TYPES :: "(int, int list) dict"
  VALID_SETREQ :: "(int, validator) dict"

record Message =
  node_id_m :: pyval
  child_id_m :: int
  type_m :: int
  sub_type_m :: int
  payload_m :: pyval

text \<open>Any Python object that an attribute of a sensor can hold.\<close>

datatype pyobj = Val pyval | Children "(int, ChildSensor) dict" | Queue "pyval list"

record collab =
  get_const :: "pyval \<Rightarrow> error + Const"
  encode :: "Message \<Rightarrow> error + string option"
  validate_m :: "Message \<Rightarrow> pyval \<Rightarrow> error + unit"
  is_battery_level :: "pyobj \<Rightarrow> error + pyval"
  is_heartbeat :: "pyobj \<Rightarrow> error + pyval"
  safe_is_version :: "pyobj \<Rightarrow> error + pyval"

section \<open>The validated scalars\<close>

text \<open>
  Each setter assigns what the validator returns; a validator that raises leaves the
  assignment undone.
\<close>

definition set_battery_level :: "collab \<Rightarrow> pyobj \<Rightarrow> Sensor \<Rightarrow> unit outcome" where
  "set_battery_level ext value s =
     (case is_battery_level ext value of
        Inl e \<Rightarrow> (Inl e, s)
      | Inr v \<Rightarrow> (Inr (), s\<lparr>battery_level_attr := v\<rparr>))"

definition set_heartbeat :: "collab \<Rightarrow> pyobj \<Rightarrow> Sensor \<Rightarrow> unit outcome" where
  "set_heartbeat ext value s =
     (case is_heartbeat ext value of
        Inl e \<Rightarrow> (Inl e, s)
      | Inr v \<Rightarrow> (Inr (), s\<lparr>heartbeat_attr := v\<rparr>))"

definition set_protocol_version :: "collab \<Rightarrow> pyobj \<Rightarrow> Sensor \<Rightarrow> unit outcome" where
  "set_protocol_version ext value s =
     (case safe_is_version ext value of
        Inl e \<Rightarrow> (Inl e, s)
      | Inr v \<Rightarrow> (Inr (), s\<lparr>protocol_version_attr := v\<rparr>))"

section \<open>Desired state\<close>

text \<open>
  \<^verbatim>\<open>validate_child_state\<close> builds the set message and asks the collaborators. It
  catches \<^verbatim>\<open>AttributeError\<close> and \<^verbatim>\<open>vol.Invalid\<close> from \<^verbatim>\<open>msg.validate\<close>;
  any other exception of a collaborator passes through.
\<close>

definition validate_child_state :: "collab \<Rightarrow> Sensor \<Rightarrow> int \<Rightarrow> int \<Rightarrow> pyval \<Rightarrow> error + bool" where
  "validate_child_state ext s child_id value_type value =
     (case get_const ext (protocol_version s) of
        Inl e \<Rightarrow> Inl e
      | Inr const \<Rightarrow>
          (let msg_type = MessageType_set const;
               msg = \<lparr>node_id_m = sensor_id s, child_id_m = child_id, type_m = msg_type,
                      sub_type_m = value_type, payload_m = value\<rparr>
           in case encode ext msg of
                Inl e \<Rightarrow> Inl e
              | Inr None \<Rightarrow> Inr False
              | Inr (Some msg_string) \<Rightarrow>
                  (case validate_m ext msg (protocol_version s) of
                     Inl AttributeError \<Rightarrow> Inr False
                   | Inl Invalid \<Rightarrow> Inr False
                   | Inl e \<Rightarrow> Inl e
                   | Inr u \<Rightarrow> Inr True)))"

definition set_child_desired_state ::
  "collab \<Rightarrow> int \<Rightarrow> int \<Rightarrow> pyval \<Rightarrow> Sensor \<Rightarrow> unit outcome" where
  "set_child_desired_state ext child_id value_type value s =
     (if \<not> contains (new_state s) child_id then (Inr (), s)
      else (case validate_child_state ext s child_id value_type value of
              Inl e \<Rightarrow> (Inl e, s)
            | Inr ok \<Rightarrow>
                if \<not> ok then (Inr (), s)
                else (case getitem (new_state s) child_id of
                        Inl e \<Rightarrow> (Inl e, s)
                      | Inr child \<Rightarrow>
                          (Inr (),
                           s\<lparr>new_state := setitem (new_state s) child_id
                                (child\<lparr>values_c := setitem (values_c child) value_type value\<rparr>)\<rparr>))))"

section \<open>Schemas\<close>

text \<open>
  \<^verbatim>\<open>get_schema\<close> builds two dictionaries by comprehension over the value types that
  the constant tables list for \<^verbatim>\<open>S_CUSTOM\<close> and for the child's own type, and joins
  them with \<^verbatim>\<open>vol.Schema.extend\<close>. A member of the value-type enumeration is
  modelled by its \<^verbatim>\<open>.value\<close>. Every subscript of a table raises \<^verbatim>\<open>KeyError\<close>
  on a missing key.
\<close>

fun schema_comp :: "Const \<Rightarrow> int list \<Rightarrow> schema \<Rightarrow> error + schema" where
  "schema_comp const [] acc = Inr acc"
| "schema_comp const (typ # typs) acc =
     (case getitem (VALID_SETREQ const) typ of
        Inl e \<Rightarrow> Inl e
      | Inr v \<Rightarrow> schema_comp const typs (setitem acc typ v))"

text \<open>
  \<^verbatim>\<open>Schema.extend\<close> of the voluptuous library, for dictionaries whose values are
  validators: it copies the receiver's dictionary and walks the argument's items; a
  key already there is deleted and stored again with the argument's value, a new key
  is stored.
\<close>

fun extend :: "schema \<Rightarrow> schema \<Rightarrow> schema" where
  "extend result [] = result"
| "extend result ((key, v) # rest) =
     (if contains result key then extend (setitem (AList.delete key result) key v) rest
      else extend (setitem result key v) rest)"

definition get_schema :: "collab \<Rightarrow> ChildSensor \<Rightarrow> pyval \<Rightarrow> error + schema" where
  "get_schema ext c pv =
     (case get_const ext pv of
        Inl e \<Rightarrow> Inl e
      | Inr const \<Rightarrow>
          (case getitem (VALID_TYPES const) (S_CUSTOM const) of
             Inl e \<Rightarrow> Inl e
           | Inr custom_typs \<Rightarrow>
               (case schema_comp const custom_typs [] of
                  Inl e \<Rightarrow> Inl e
                | Inr custom_schema \<Rightarrow>
                    (case getitem (VALID_TYPES const) (type_c c) of
                       Inl e \<Rightarrow> Inl e
                     | Inr typs \<Rightarrow>
                         (case schema_comp const typs [] of
                            Inl e \<Rightarrow> Inl e
                          | Inr type_schema \<Rightarrow> Inr (extend custom_schema type_schema))))))"

text \<open>
  Calling a voluptuous schema built from a dictionary on a value map: every key of
  the map must be a key of the schema and its value must pass that key's validator;
  the keys of the schema are optional. The result maps each key to the validated
  value; any failure is \<^verbatim>\<open>vol.Invalid\<close>.
\<close>

fun schema_call :: "schema \<Rightarrow> (int, pyval) dict \<Rightarrow> error + (int, pyval) dict" where
  "schema_call sch [] = Inr []"
| "schema_call sch ((k, v) # rest) =
     (case map_of sch k of
        None \<Rightarrow> Inl Invalid
      | Some f \<Rightarrow>
          (case f v of
             None \<Rightarrow> Inl Invalid
           | Some v' \<Rightarrow>
               (case schema_call sch rest of
                  Inl e \<Rightarrow> Inl e
                | Inr out \<Rightarrow> Inr ((k, v') # out))))"

definition validate ::
  "collab \<Rightarrow> ChildSensor \<Rightarrow> pyval \<Rightarrow> (int, pyval) dict option \<Rightarrow> error + (int, pyval) dict" where
  "validate ext c pv vals =
     (let vs = (case vals of None \<Rightarrow> values_c c | Some given \<Rightarrow> given)
      in case get_schema ext c pv of
           Inl e \<Rightarrow> Inl e
         | Inr sch \<Rightarrow> schema_call sch vs)"

section \<open>Saving and loading\<close>

text \<open>
  \<^verbatim>\<open>self.__dict__\<close> of a sensor, in the order in which \<^verbatim>\<open>__init__\<close> assigns.
\<close>

type_synonym state = "(string, pyobj) dict"

definition dict_of :: "Sensor \<Rightarrow> state" where
  "dict_of s =
     [(''sensor_id'', Val (sensor_id s)),
      (''children'', Children (children s)),
      (''type'', Val (type_s s)),
      (''sketch_name'', Val (sketch_name s)),
      (''sketch_version'', Val (sketch_version s)),
      (''_battery_level'', Val (battery_level_attr s)),
      (''_protocol_version'', Val (protocol_version_attr s)),
      (''_heartbeat'', Val (heartbeat_attr s)),
      (''new_state'', Children (new_state s)),
      (''queue'', Queue (queue s)),
      (''reboot'', Val (PBool (reboot s)))]"

text \<open>\<^verbatim>\<open>state.pop(attr, None)\<close>.\<close>

definition pop :: "state \<Rightarrow> string \<Rightarrow> pyobj \<times> state" where
  "pop st attr =
     (case map_of st attr of
        None \<Rightarrow> (Val PNone, st)
      | Some v \<Rightarrow> (v, AList.delete attr st))"

definition getstate_step :: "state \<Rightarrow> string \<Rightarrow> state" where
  "getstate_step st attr =
     (case pop st attr of
        (value, st') \<Rightarrow>
          (let prop = (if take 1 attr = ''_'' then drop 1 attr else attr)
           in if value \<noteq> Val PNone then setitem st' prop value else st'))"

definition getstate :: "Sensor \<Rightarrow> state" where
  "getstate s =
     foldl getstate_step (dict_of s) [''_battery_level'', ''_heartbeat'', ''_protocol_version'']"

text \<open>
  \<^verbatim>\<open>setattr(self, key, val)\<close> on the object that is being restored, whose
  \<^verbatim>\<open>__dict__\<close> is \<open>d\<close>: the three validated properties run their setters, the
  read-only property cannot be set, any other name is stored.
\<close>

definition setattr :: "collab \<Rightarrow> state \<Rightarrow> string \<Rightarrow> pyobj \<Rightarrow> error + state" where
  "setattr ext d key val =
     (if key = ''battery_level'' then
        (case is_battery_level ext val of
           Inl e \<Rightarrow> Inl e | Inr v \<Rightarrow> Inr (setitem d ''_battery_level'' (Val v)))
      else if key = ''heartbeat'' then
        (case is_heartbeat ext val of
           Inl e \<Rightarrow> Inl e | Inr v \<Rightarrow> Inr (setitem d ''_heartbeat'' (Val v)))
      else if key = ''protocol_version'' then
        (case safe_is_version ext val of
           Inl e \<Rightarrow> Inl e | Inr v \<Rightarrow> Inr (setitem d ''_protocol_version'' (Val v)))
      else if key = ''is_smart_sleep_node'' then Inl AttributeError
      else Inr (setitem d key val))"

fun setstate_loop :: "collab \<Rightarrow> state \<Rightarrow> state \<Rightarrow> error + state" where
  "setstate_loop ext [] d = Inr d"
| "setstate_loop ext ((key, val) # rest) d =
     (case setattr ext d key val of
        Inl e \<Rightarrow> Inl e
      | Inr d' \<Rightarrow> setstate_loop ext rest d')"

text \<open>
  \<^verbatim>\<open>__setstate__\<close> runs on a fresh object, whose \<^verbatim>\<open>__dict__\<close> is empty, and gives
  the \<^verbatim>\<open>__dict__\<close> of the restored one.
\<close>

definition setstate :: "collab \<Rightarrow> state \<Rightarrow> error + state" where
  "setstate ext st =
     (case setstate_loop ext st [] of
        Inl e \<Rightarrow> Inl e
      | Inr d \<Rightarrow>
          (let d1 = setitem d ''new_state'' (Children []);
               d2 = setitem d1 ''queue'' (Queue []);
               d3 = setitem d2 ''reboot'' (Val (PBool False))
           in if \<not> contains d3 ''_heartbeat''
              then setattr ext d3 ''heartbeat'' (Val (PInt 0))
              else Inr d3))"

text \<open>Reading a \<^verbatim>\<open>__dict__\<close> that holds every attribute of a sensor back as a record.\<close>

definition attr_val :: "state \<Rightarrow> string \<Rightarrow> pyval option" where
  "attr_val d k = (case map_of d k of Some (Val v) \<Rightarrow> Some v | _ \<Rightarrow> None)"

definition attr_children :: "state \<Rightarrow> string \<Rightarrow> (int, ChildSensor) dict option" where
  "attr_children d k = (case map_of d k of Some (Children c) \<Rightarrow> Some c | _ \<Rightarrow> None)"

definition attr_queue :: "state \<Rightarrow> string \<Rightarrow> pyval list option" where
  "attr_queue d k = (case map_of d k of Some (Queue q) \<Rightarrow> Some q | _ \<Rightarrow> None)"

definition attr_bool :: "state \<Rightarrow> string \<Rightarrow> bool option" where
  "attr_bool d k = (case map_of d k of Some (Val (PBool b)) \<Rightarrow> Some b | _ \<Rightarrow> None)"

definition sensor_of :: "state \<Rightarrow> Sensor option" where
  "sensor_of d =
     Option.bind (attr_val d ''sensor_id'') (\<lambda>sid.
     Option.bind (attr_children d ''children'') (\<lambda>ch.
     Option.bind (attr_val d ''type'') (\<lambda>ty.
     Option.bind (attr_val d ''sketch_name'') (\<lambda>sn.
     Option.bind (attr_val d ''sketch_version'') (\<lambda>sv.
     Option.bind (attr_val d ''_battery_level'') (\<lambda>bl.
     Option.bind (attr_val d ''_protocol_version'') (\<lambda>pv.
     Option.bind (attr_val d ''_heartbeat'') (\<lambda>hb.
     Option.bind (attr_children d ''new_state'') (\<lambda>ns.
     Option.bind (attr_queue d ''queue'') (\<lambda>q.
     Option.bind (attr_bool d ''reboot'') (\<lambda>rb.
       Some \<lparr>sensor_id = sid, children = ch, type_s = ty, sketch_name = sn,
             sketch_version = sv, battery_level_attr = bl, protocol_version_attr = pv,
             heartbeat_attr = hb, new_state = ns, queue = q, reboot = rb\<rparr>)))))))))))"

section \<open>An instance of the collaborators\<close>

text \<open>
  Modelled from the spec: the validators of \<^verbatim>\<open>validation.py\<close>, the constant tables
  of \<^verbatim>\<open>const.py\<close> and the message class of \<^verbatim>\<open>message.py\<close> are not among the
  sources. This instance follows the spec's data model: the battery level is an
  integer percentage, the heartbeat a non-negative integer, the protocol version a
  non-empty string; a set message can be encoded when its payload is a string, and is
  valid when its value type has a validator that accepts the payload. It serves to
  evaluate the model on concrete sensors; no general theorem depends on it.
\<close>

definition example_is_battery_level :: "pyobj \<Rightarrow> error + pyval" where
  "example_is_battery_level x =
     (case x of
        Val (PInt n) \<Rightarrow> if 0 \<le> n \<and> n \<le> 100 then Inr (PInt n) else Inl Invalid
      | _ \<Rightarrow> Inl Invalid)"

definition example_is_heartbeat :: "pyobj \<Rightarrow> error + pyval" where
  "example_is_heartbeat x =
     (case x of
        Val (PInt n) \<Rightarrow> if 0 \<le> n then Inr (PInt n) else Inl Invalid
      | _ \<Rightarrow> Inl Invalid)"

definition example_is_version :: "pyobj \<Rightarrow> error + pyval" where
  "example_is_version x =
     (case x of
        Val (PStr v) \<Rightarrow> if v \<noteq> [] then Inr (PStr v) else Inl Invalid
      | _ \<Rightarrow> Inl Invalid)"

definition on_off :: validator where
  "on_off v = (if v = PStr ''0'' \<or> v = PStr ''1'' then Some v else None)"

definition any_string :: validator where
  "any_string v = (case v of PStr x \<Rightarrow> Some v | _ \<Rightarrow> None)"

definition example_const :: Const where
  "example_const =
     \<lparr>MessageType_set = 1, S_CUSTOM = 23,
      VALID_TYPES = [(3, [2]), (13, [17, 24]), (23, [24, 25])],
      VALID_SETREQ = [(2, on_off), (17, any_string), (24, any_string), (25, any_string)]\<rparr>"

definition example_encode :: "Message \<Rightarrow> error + string option" where
  "example_encode msg =
     (case payload_m msg of PStr x \<Rightarrow> Inr (Some x) | _ \<Rightarrow> Inr None)"

definition example_validate_m :: "Message \<Rightarrow> pyval \<Rightarrow> error + unit" where
  "example_validate_m msg pv =
     (case map_of (VALID_SETREQ example_const) (sub_type_m msg) of
        None \<Rightarrow> Inl Invalid
      | Some f \<Rightarrow> (case f (payload_m msg) of None \<Rightarrow> Inl Invalid | Some v \<Rightarrow> Inr ()))"

definition example_collab :: collab where
  "example_collab =
     \<lparr>get_const = (\<lambda>pv. Inr example_const),
      encode = example_encode,
      validate_m = example_validate_m,
      is_battery_level = example_is_battery_level,
      is_heartbeat = example_is_heartbeat,
      safe_is_version = example_is_version\<rparr>"

text \<open>
  A node with one binary switch, child 1 of type 3, as \<^verbatim>\<open>Sensor(7)\<close> followed by
  \<^verbatim>\<open>add_child_sensor(1, 3, "sw")\<close> builds it.
\<close>

definition switch_node :: Sensor where
  "switch_node = snd (add_child_sensor 1 3 ''sw'' (Sensor_init (PInt 7)))"

text \<open>
  The same node after \<^verbatim>\<open>init_smart_sleep_mode()\<close>; then after the node reported
  \<^verbatim>\<open>update_child_value(1, 2, "0")\<close>; then after the controller asked for
  \<^verbatim>\<open>set_child_desired_state(1, 2, "1")\<close>. The last node is the sleeping node to
  which a second child was added after \<^verbatim>\<open>init_smart_sleep_mode()\<close>.
\<close>

definition sleepy_node :: Sensor where
  "sleepy_node = snd (init_smart_sleep_mode switch_node)"

definition reported_node :: Sensor where
  "reported_node = snd (update_child_value 1 2 (PStr ''0'') sleepy_node)"

definition pending_node :: Sensor where
  "pending_node = snd (set_child_desired_state example_collab 1 2 (PStr ''1'') reported_node)"

definition orphan_node :: Sensor where
  "orphan_node = snd (add_child_sensor 2 3 ''late'' sleepy_node)"

text \<open>
  The shape of a saved record: the attributes that \<^verbatim>\<open>__getstate__\<close> copies as they
  are, followed by the validated scalars under their public names; and the
  \<^verbatim>\<open>__dict__\<close> that \<^verbatim>\<open>__setstate__\<close> builds from it when the validators return
  \<open>b\<close>, \<open>h\<close> and \<open>p\<close>.
\<close>

definition public_part :: "Sensor \<Rightarrow> state" where
  "public_part s =
     [(''sensor_id'', Val (sensor_id s)),
      (''children'', Children (children s)),
      (''type'', Val (type_s s)),
      (''sketch_name'', Val (sketch_name s)),
      (''sketch_version'', Val (sketch_version s)),
      (''new_state'', Children (new_state s)),
      (''queue'', Queue (queue s)),
      (''reboot'', Val (PBool (reboot s)))]"

definition scalar_part :: "Sensor \<Rightarrow> state" where
  "scalar_part s =
     (if battery_level_attr s \<noteq> PNone
      then [(''battery_level'', Val (battery_level_attr s))] else []) @
     (if heartbeat_attr s \<noteq> PNone
      then [(''heartbeat'', Val (heartbeat_attr s))] else []) @
     (if protocol_version_attr s \<noteq> PNone
      then [(''protocol_version'', Val (protocol_version_attr s))] else [])"

definition private_names :: "string set" where
  "private_names = {''_battery_level'', ''_heartbeat'', ''_protocol_version''}"

definition property_names :: "string set" where
  "property_names = {''battery_level'', ''heartbeat'', ''protocol_version''}"

definition loaded :: "Sensor \<Rightarrow> pyval \<Rightarrow> pyval \<Rightarrow> pyval \<Rightarrow> state" where
  "loaded s b h p =
     [(''sensor_id'', Val (sensor_id s)),
      (''children'', Children (children s)),
      (''type'', Val (type_s s)),
      (''sketch_name'', Val (sketch_name s)),
      (''sketch_version'', Val (sketch_version s)),
      (''new_state'', Children []),
      (''queue'', Queue []),
      (''reboot'', Val (PBool False)),
      (''_battery_level'', Val b),
      (''_heartbeat'', Val h),
      (''_protocol_version'', Val p)]"

text \<open>
  The node with a pending desired value, a queued message and the reboot flag set.
\<close>

definition busy_node :: Sensor where
  "busy_node = pending_node\<lparr>queue := [PStr ''7;1;1;0;2;1''], reboot := True\<rparr>"

section \<open>The validators as the specification words them\<close>

text \<open>
  Modelled from the spec: \<^verbatim>\<open>validation.py\<close>, which defines
  \<^verbatim>\<open>is_battery_level\<close>, \<^verbatim>\<open>is_heartbeat\<close> and \<^verbatim>\<open>safe_is_version\<close>, is not
  among the sources. The spec says that each scalar setter runs its field-specific
  validator, that a value failing the domain check is rejected with a
  \<^verbatim>\<open>ValidationError\<close> (here \<^verbatim>\<open>Invalid\<close>) and never silently clamped, and that a
  value passing it is stored. A supplied object passes a domain when it is a scalar
  of that domain.
\<close>

definition passes :: "(pyval \<Rightarrow> bool) \<Rightarrow> pyobj \<Rightarrow> bool" where
  "passes domain x = (case x of Val v \<Rightarrow> domain v | _ \<Rightarrow> False)"

text \<open>
  Modelled from the spec: a validator of \<^verbatim>\<open>validation.py\<close> for a domain. It returns
  the value itself when the value is in the domain and raises otherwise.
\<close>

definition spec_validator :: "(pyval \<Rightarrow> bool) \<Rightarrow> pyobj \<Rightarrow> error + pyval" where
  "spec_validator domain x =
     (case x of
        Val v \<Rightarrow> if domain v then Inr v else Inl Invalid
      | _ \<Rightarrow> Inl Invalid)"

text \<open>
  Modelled from the spec: the domain of \<^verbatim>\<open>battery_level\<close>, "integer,
  domain-validated to a bounded percentage range".
\<close>

definition valid_battery_level :: "pyval \<Rightarrow> bool" where
  "valid_battery_level v = (case v of PInt n \<Rightarrow> 0 \<le> n \<and> n \<le> 100 | _ \<Rightarrow> False)"

text \<open>
  Modelled from the spec: the domain of \<^verbatim>\<open>heartbeat\<close>, "integer, domain-validated
  to a bounded, non-negative duration". The spec does not give the bound, which is a
  parameter.
\<close>

definition valid_heartbeat :: "int \<Rightarrow> pyval \<Rightarrow> bool" where
  "valid_heartbeat bound v = (case v of PInt n \<Rightarrow> 0 \<le> n \<and> n \<le> bound | _ \<Rightarrow> False)"

text \<open>
  Modelled from the spec: the domain of \<^verbatim>\<open>protocol_version\<close>, "string, validated
  against an accepted version-token grammar". The spec does not give the grammar,
  which is a parameter.
\<close>

definition valid_version :: "(string \<Rightarrow> bool) \<Rightarrow> pyval \<Rightarrow> bool" where
  "valid_version grammar v = (case v of PStr token \<Rightarrow> grammar token | _ \<Rightarrow> False)"

text \<open>
  Modelled from the spec: any collaborators with the three validators of
  \<^verbatim>\<open>validation.py\<close> replaced by the specification's.
\<close>

definition spec_validators :: "int \<Rightarrow> (string \<Rightarrow> bool) \<Rightarrow> collab \<Rightarrow> collab" where
  "spec_validators bound grammar ext =
     ext\<lparr>is_battery_level := spec_validator valid_battery_level,
         is_heartbeat := spec_validator (valid_heartbeat bound),
         safe_is_version := spec_validator (valid_version grammar)\<rparr>"

text \<open>The three stored scalars of a sensor are each in their domain.\<close>

definition scalars_valid :: "int \<Rightarrow> (string \<Rightarrow> bool) \<Rightarrow> Sensor \<Rightarrow> bool" where
  "scalars_valid bound grammar s =
     (valid_battery_level (battery_level s) \<and> valid_heartbeat bound (heartbeat s) \<and>
      valid_version grammar (protocol_version s))"

text \<open>A grammar of version tokens for evaluating the model.\<close>

definition example_grammar :: "string \<Rightarrow> bool" where
  "example_grammar token = (token = ''1.4'' \<or> token = ''1.5'' \<or> token = ''2.0'')"

section \<open>The schema as the specification words it\<close>

text \<open>
  The field table of a list of value types gives each listed type its validator from
  \<^verbatim>\<open>VALID_SETREQ\<close>. The specification's merged schema is the generic table extended
  by the type-specific one, whose entry wins on a key that both have. A value map
  satisfies a schema when each of its keys has a validator in the schema and that
  validator accepts the key's value.
\<close>

definition field_table :: "Const \<Rightarrow> int list \<Rightarrow> (int \<rightharpoonup> validator)" where
  "field_table const typs k = (if k \<in> set typs then map_of (VALID_SETREQ const) k else None)"

definition merged_schema_spec ::
  "(int \<rightharpoonup> validator) \<Rightarrow> (int \<rightharpoonup> validator) \<Rightarrow> (int \<rightharpoonup> validator)" where
  "merged_schema_spec generic specific k =
     (case specific k of Some f \<Rightarrow> Some f | None \<Rightarrow> generic k)"

definition satisfies_spec :: "(int \<rightharpoonup> validator) \<Rightarrow> (int, pyval) dict \<Rightarrow> bool" where
  "satisfies_spec sch vs =
     (\<forall>x \<in> set vs. case sch (fst x) of None \<Rightarrow> False | Some f \<Rightarrow> f (snd x) \<noteq> None)"

text \<open>A power meter, child 5 of type 13, that reported a wattage and a pulse count.\<close>

definition meter_child :: ChildSensor where
  "meter_child = (ChildSensor_init 5 13 ''meter'')\<lparr>values_c := [(17, PStr ''230''), (24, PStr ''9'')]\<rparr>"

section \<open>Reachable sensors\<close>

text \<open>
  A dictionary of children in which every child is stored under its own id, as
  \<^verbatim>\<open>add_child_sensor\<close> and \<^verbatim>\<open>init_smart_sleep_mode\<close> store them.
\<close>

definition keyed_by_id :: "(int, ChildSensor) dict \<Rightarrow> bool" where
  "keyed_by_id d = (distinct (map fst d) \<and> (\<forall>x \<in> set d. id_c (snd x) = fst x))"

text \<open>
  The sensors that the class can produce: a fresh \<^verbatim>\<open>Sensor(sensor_id)\<close>, followed
  by any calls of its methods and setters with any collaborators, by assignments to
  its plain public attributes, and by saving and loading.
\<close>

inductive reachable :: "Sensor \<Rightarrow> bool" where
  created: "reachable (Sensor_init sid)"
| added: "reachable s \<Longrightarrow>
    reachable (snd (add_child_sensor child_id child_type description s))"
| smart_sleep: "reachable s \<Longrightarrow> reachable (snd (init_smart_sleep_mode s))"
| desired: "reachable s \<Longrightarrow>
    reachable (snd (set_child_desired_state ext child_id value_type value s))"
| updated: "reachable s \<Longrightarrow>
    reachable (snd (update_child_value child_id value_type value s))"
| battery: "reachable s \<Longrightarrow> reachable (snd (set_battery_level ext x s))"
| beat: "reachable s \<Longrightarrow> reachable (snd (set_heartbeat ext x s))"
| version: "reachable s \<Longrightarrow> reachable (snd (set_protocol_version ext x s))"
| assigned: "reachable s \<Longrightarrow>
    reachable (s\<lparr>type_s := t, sketch_name := n, sketch_version := v, queue := q, reboot := r\<rparr>)"
| loaded: "reachable s \<Longrightarrow> setstate ext (getstate s) = Inr d \<Longrightarrow> sensor_of d = Some s' \<Longrightarrow>
    reachable s'"

text \<open>
  A shadow agrees with the children when a child is stored under the shadow's key
  and has the shadow's type and description.
\<close>

definition agrees :: "(int, ChildSensor) dict \<Rightarrow> int \<times> ChildSensor \<Rightarrow> bool" where
  "agrees ch x =
     (case map_of ch (fst x) of
        None \<Rightarrow> False
      | Some c \<Rightarrow> type_c (snd x) = type_c c \<and> description_c (snd x) = description_c c)"


definition sensor_inv :: "Sensor \<Rightarrow> bool" where
  "sensor_inv s =
     (keyed_by_id (children s) \<and> keyed_by_id (new_state s) \<and>
      (\<forall>x \<in> set (new_state s). agrees (children s) x))"

section \<open>Facts about dictionaries\<close>

lemma contains_map_of: "contains d k = (map_of d k \<noteq> None)"
  by (simp add: contains_def map_of_eq_None_iff)

lemma contains_setitem: "contains (setitem d k v) k' = (k' = k \<or> contains d k')"
  by (auto simp: contains_def setitem_def AList.dom_update image_iff)

lemma map_of_setitem: "map_of (setitem d k v) = (map_of d)(k \<mapsto> v)"
  by (simp add: setitem_def update_conv')

lemma getitem_setitem:
  "getitem (setitem d k v) k' = (if k' = k then Inr v else getitem d k')"
  by (simp add: getitem_def map_of_setitem)

lemma getitem_Inl: "(getitem d k = Inl e) = (e = KeyError \<and> \<not> contains d k)"
  by (auto simp: getitem_def contains_map_of split: option.splits)

lemma getitem_Inr: "(getitem d k = Inr v) = (map_of d k = Some v)"
  by (auto simp: getitem_def split: option.splits)

lemma setitem_new: "\<not> contains d k \<Longrightarrow> setitem d k v = d @ [(k, v)]"
  by (induction d) (auto simp: contains_def setitem_def)

lemma keys_setitem: "set (map fst (setitem d k v)) = insert k (set (map fst d))"
  using AList.dom_update [of k v d] by (simp add: setitem_def)

lemma distinct_setitem: "distinct (map fst d) \<Longrightarrow> distinct (map fst (setitem d k v))"
  by (simp add: setitem_def AList.distinct_update)

lemma keys_setitem_same:
  assumes "map_of d k = Some v"
  shows "map fst (setitem d k v') = map fst d"
  using assms by (induction d) (auto simp: setitem_def)

section \<open>Registering children\<close>

text \<open>
  C9. \<^verbatim>\<open>add_child_sensor\<close> never raises. With a child id that is already a key of
  \<^verbatim>\<open>children\<close> it returns \<^verbatim>\<open>None\<close> and leaves the sensor as it is. With an unused
  id it returns the id and appends one child with that id, type and description and
  an empty value map. In both cases every child stored before the call is stored
  unchanged after it.
\<close>

theorem add_child_sensor_spec:
  "(contains (children s) child_id \<longrightarrow>
      add_child_sensor child_id child_type description s = (Inr None, s)) \<and>
   (\<not> contains (children s) child_id \<longrightarrow>
      fst (add_child_sensor child_id child_type description s) = Inr (Some child_id) \<and>
      snd (add_child_sensor child_id child_type description s) =
        s\<lparr>children := children s @
             [(child_id, \<lparr>id_c = child_id, type_c = child_type,
                          description_c = description, values_c = []\<rparr>)]\<rparr>) \<and>
   (\<forall>k c. map_of (children s) k = Some c \<longrightarrow>
      map_of (children (snd (add_child_sensor child_id child_type description s))) k = Some c)"
  by (auto simp: add_child_sensor_def ChildSensor_init_def contains_map_of setitem_new
        map_of_setitem)

theorem add_child_sensor_spec_witness:
  "\<not> contains (children (Sensor_init (PInt 7))) 1 \<and>
   fst (add_child_sensor 1 3 ''sw'' (Sensor_init (PInt 7))) = Inr (Some 1) \<and>
   children switch_node =
     [(1, \<lparr>id_c = 1, type_c = 3, description_c = ''sw'', values_c = []\<rparr>)] \<and>
   contains (children switch_node) 1 \<and>
   add_child_sensor 1 4 ''other'' switch_node = (Inr None, switch_node) \<and>
   map_of (children (snd (add_child_sensor 2 4 ''other'' switch_node))) 1 =
     Some \<lparr>id_c = 1, type_c = 3, description_c = ''sw'', values_c = []\<rparr>"
proof -
  have fresh: "\<not> contains (children (Sensor_init (PInt 7))) 1"
    by (simp add: Sensor_init_def contains_def)
  have node: "children switch_node =
      [(1, \<lparr>id_c = 1, type_c = 3, description_c = ''sw'', values_c = []\<rparr>)]"
    using fresh add_child_sensor_spec [of "Sensor_init (PInt 7)" 1 3 "''sw''"]
    by (simp add: switch_node_def Sensor_init_def)
  have present: "contains (children switch_node) 1"
    by (simp add: node contains_def)
  show ?thesis
    using fresh node present
      add_child_sensor_spec [of "Sensor_init (PInt 7)" 1 3 "''sw''"]
      add_child_sensor_spec [of switch_node 1 4 "''other''"]
      add_child_sensor_spec [of switch_node 2 4 "''other''"]
    by simp
qed

section \<open>Evaluating the example nodes\<close>

lemmas model_defs =
  add_child_sensor_def init_smart_sleep_mode_def update_child_value_def
  set_child_desired_state_def validate_child_state_def get_desired_value_def
  Sensor_init_def ChildSensor_init_def contains_def setitem_def getitem_def dict_get_def
  is_smart_sleep_node_def protocol_version_def

lemmas example_defs =
  example_collab_def example_const_def example_encode_def example_validate_m_def
  example_is_battery_level_def example_is_heartbeat_def example_is_version_def
  on_off_def any_string_def

lemma switch_node_eq:
  "switch_node =
     \<lparr>sensor_id = PInt 7,
      children = [(1, \<lparr>id_c = 1, type_c = 3, description_c = ''sw'', values_c = []\<rparr>)],
      type_s = PNone, sketch_name = PNone, sketch_version = PNone,
      battery_level_attr = PInt 0, protocol_version_attr = PStr ''1.4'',
      heartbeat_attr = PInt 0, new_state = [], queue = [], reboot = False\<rparr>"
  by (simp add: switch_node_def model_defs)

lemma sleepy_node_eq:
  "sleepy_node =
     switch_node\<lparr>new_state :=
       [(1, \<lparr>id_c = 1, type_c = 3, description_c = ''sw'', values_c = []\<rparr>)]\<rparr>"
  by (simp add: sleepy_node_def switch_node_eq model_defs)

lemma reported_node_eq:
  "reported_node =
     switch_node\<lparr>
       children := [(1, \<lparr>id_c = 1, type_c = 3, description_c = ''sw'',
                         values_c = [(2, PStr ''0'')]\<rparr>)],
       new_state := [(1, \<lparr>id_c = 1, type_c = 3, description_c = ''sw'',
                          values_c = [(2, PNone)]\<rparr>)]\<rparr>"
  by (simp add: reported_node_def sleepy_node_eq switch_node_eq model_defs)

lemma pending_node_eq:
  "pending_node =
     switch_node\<lparr>
       children := [(1, \<lparr>id_c = 1, type_c = 3, description_c = ''sw'',
                         values_c = [(2, PStr ''0'')]\<rparr>)],
       new_state := [(1, \<lparr>id_c = 1, type_c = 3, description_c = ''sw'',
                          values_c = [(2, PStr ''1'')]\<rparr>)]\<rparr>"
  by (simp add: pending_node_def reported_node_eq switch_node_eq model_defs example_defs)

lemma orphan_node_eq:
  "orphan_node =
     sleepy_node\<lparr>children :=
       [(1, \<lparr>id_c = 1, type_c = 3, description_c = ''sw'', values_c = []\<rparr>),
        (2, \<lparr>id_c = 2, type_c = 3, description_c = ''late'', values_c = []\<rparr>)]\<rparr>"
  by (simp add: orphan_node_def sleepy_node_eq switch_node_eq model_defs)

section \<open>Reading the desired value\<close>

lemma get_desired_value_fails_iff:
  "(\<exists>e. get_desired_value s child_id value_type = Inl e) \<longleftrightarrow>
     (\<not> contains (children s) child_id \<or>
      (is_smart_sleep_node s \<and> \<not> contains (new_state s) child_id))"
  by (auto simp: get_desired_value_def getitem_def contains_map_of
           split: option.splits sum.splits if_splits)

text \<open>
  C2. The claim is that \<^verbatim>\<open>get_desired_value\<close> raises a lookup error exactly when
  the child id is not a key of \<^verbatim>\<open>children\<close>. On the node that got a second child
  after smart-sleep mode was initialised, child 2 is a key of \<^verbatim>\<open>children\<close>, the
  node is a smart-sleep node, child 2 has no shadow, and the call raises
  \<^verbatim>\<open>KeyError\<close> from the subscript \<^verbatim>\<open>self.new_state[child_id]\<close>.
\<close>

theorem get_desired_value_missing_shadow:
  "contains (children orphan_node) 2 \<and> is_smart_sleep_node orphan_node \<and>
   \<not> contains (new_state orphan_node) 2 \<and>
   get_desired_value orphan_node 2 2 = Inl KeyError"
  by (simp add: orphan_node_eq sleepy_node_eq switch_node_eq model_defs)

text \<open>
  C3. For a child that is a key of \<^verbatim>\<open>children\<close>: when it also has a shadow, the
  node is a smart-sleep node and \<^verbatim>\<open>get_desired_value\<close> returns the shadow's value
  for the value type if that value is truthy, and otherwise the actual child's value
  (\<^verbatim>\<open>None\<close> if unset); on a node that is not a smart-sleep node it returns the
  actual child's value. A falsy desired value gives the same answer as a shadow from
  which the value type was removed.
\<close>

theorem get_desired_value_resolution:
  assumes "map_of (children s) child_id = Some actual"
  shows "(map_of (new_state s) child_id = Some shadow \<longrightarrow>
            is_smart_sleep_node s \<and>
            get_desired_value s child_id value_type =
              Inr (if truthy (dict_get (values_c shadow) value_type)
                   then dict_get (values_c shadow) value_type
                   else dict_get (values_c actual) value_type)) \<and>
         (\<not> is_smart_sleep_node s \<longrightarrow>
            get_desired_value s child_id value_type =
              Inr (dict_get (values_c actual) value_type)) \<and>
         (map_of (new_state s) child_id = Some shadow \<and> \<not> truthy v \<longrightarrow>
            get_desired_value
              (s\<lparr>new_state := setitem (new_state s) child_id
                    (shadow\<lparr>values_c := setitem (values_c shadow) value_type v\<rparr>)\<rparr>)
              child_id value_type =
            get_desired_value
              (s\<lparr>new_state := setitem (new_state s) child_id
                    (shadow\<lparr>values_c := AList.delete value_type (values_c shadow)\<rparr>)\<rparr>)
              child_id value_type)"
  using assms
  by (auto simp: get_desired_value_def getitem_def is_smart_sleep_node_def dict_get_def
        map_of_setitem AList.delete_conv')

theorem get_desired_value_resolution_witness:
  "map_of (children pending_node) 1 =
     Some \<lparr>id_c = 1, type_c = 3, description_c = ''sw'', values_c = [(2, PStr ''0'')]\<rparr> \<and>
   map_of (new_state pending_node) 1 =
     Some \<lparr>id_c = 1, type_c = 3, description_c = ''sw'', values_c = [(2, PStr ''1'')]\<rparr> \<and>
   get_desired_value pending_node 1 2 = Inr (PStr ''1'') \<and>
   get_desired_value reported_node 1 2 = Inr (PStr ''0'') \<and>
   \<not> is_smart_sleep_node switch_node \<and>
   get_desired_value switch_node 1 2 = Inr PNone \<and>
   \<not> truthy (PStr []) \<and>
   get_desired_value
     (pending_node\<lparr>new_state :=
        [(1, \<lparr>id_c = 1, type_c = 3, description_c = ''sw'', values_c = [(2, PStr [])]\<rparr>)]\<rparr>)
     1 2 = Inr (PStr ''0'')"
proof -
  let ?actual = "\<lparr>id_c = 1, type_c = 3, description_c = ''sw'', values_c = [(2, PStr ''0'')]\<rparr>"
  let ?shadow = "\<lparr>id_c = 1, type_c = 3, description_c = ''sw'', values_c = [(2, PStr ''1'')]\<rparr>"
  let ?unset = "\<lparr>id_c = 1, type_c = 3, description_c = ''sw'', values_c = [(2, PNone)]\<rparr>"
  let ?fresh = "\<lparr>id_c = 1, type_c = 3, description_c = ''sw'', values_c = []\<rparr>"
  have a: "map_of (children pending_node) 1 = Some ?actual"
    by (simp add: pending_node_eq)
  have b: "map_of (new_state pending_node) 1 = Some ?shadow"
    by (simp add: pending_node_eq)
  have c: "map_of (children reported_node) 1 = Some ?actual"
    by (simp add: reported_node_eq)
  have d: "map_of (new_state reported_node) 1 = Some ?unset"
    by (simp add: reported_node_eq)
  have e: "map_of (children switch_node) 1 = Some ?fresh"
    by (simp add: switch_node_eq)
  have f: "\<not> is_smart_sleep_node switch_node"
    by (simp add: switch_node_eq is_smart_sleep_node_def)
  have g: "\<not> truthy (PStr [])"
    by simp
  have r1: "get_desired_value pending_node 1 2 = Inr (PStr ''1'')"
    using get_desired_value_resolution [OF a, of ?shadow 2] b by (simp add: dict_get_def)
  have r2: "get_desired_value reported_node 1 2 = Inr (PStr ''0'')"
    using get_desired_value_resolution [OF c, of ?unset 2] d by (simp add: dict_get_def)
  have r3: "get_desired_value switch_node 1 2 = Inr PNone"
    using get_desired_value_resolution [OF e, of ?fresh 2] f by (simp add: dict_get_def)
  have r4: "get_desired_value
     (pending_node\<lparr>new_state :=
        [(1, \<lparr>id_c = 1, type_c = 3, description_c = ''sw'', values_c = [(2, PStr [])]\<rparr>)]\<rparr>)
     1 2 =
     get_desired_value
     (pending_node\<lparr>new_state :=
        [(1, \<lparr>id_c = 1, type_c = 3, description_c = ''sw'', values_c = []\<rparr>)]\<rparr>)
     1 2"
    using get_desired_value_resolution [OF a, of ?shadow 2 "PStr []"] b g
    by (simp add: pending_node_eq setitem_def)
  have r5: "get_desired_value
     (pending_node\<lparr>new_state :=
        [(1, \<lparr>id_c = 1, type_c = 3, description_c = ''sw'', values_c = []\<rparr>)]\<rparr>)
     1 2 = Inr (PStr ''0'')"
    by (simp add: pending_node_eq switch_node_eq model_defs)
  show ?thesis
    using a b f g r1 r2 r3 r4 r5 by simp
qed

section \<open>Receiving a value\<close>

text \<open>
  C4. For a child that is a key of \<^verbatim>\<open>children\<close>, \<^verbatim>\<open>update_child_value\<close> does
  not raise and stores the value under the value type in the child's value map,
  whatever the value is. If the child has a shadow, the shadow's entry for the value
  type becomes \<^verbatim>\<open>None\<close>, so reading it gives nothing; if the child has no shadow,
  \<^verbatim>\<open>new_state\<close> is unchanged.
\<close>

theorem update_child_value_spec:
  assumes "map_of (children s) child_id = Some child"
  shows "fst (update_child_value child_id value_type value s) = Inr () \<and>
         children (snd (update_child_value child_id value_type value s)) =
           setitem (children s) child_id
             (child\<lparr>values_c := setitem (values_c child) value_type value\<rparr>) \<and>
         Option.bind (map_of (children (snd (update_child_value child_id value_type value s)))
                        child_id)
           (\<lambda>c. map_of (values_c c) value_type) = Some value \<and>
         (\<forall>shadow. map_of (new_state s) child_id = Some shadow \<longrightarrow>
            new_state (snd (update_child_value child_id value_type value s)) =
              setitem (new_state s) child_id
                (shadow\<lparr>values_c := setitem (values_c shadow) value_type PNone\<rparr>) \<and>
            (\<exists>shadow'. map_of (new_state (snd (update_child_value child_id value_type value s)))
                          child_id = Some shadow' \<and>
                        dict_get (values_c shadow') value_type = PNone)) \<and>
         (\<not> contains (new_state s) child_id \<longrightarrow>
            new_state (snd (update_child_value child_id value_type value s)) = new_state s)"
  using assms
  by (auto simp: update_child_value_def getitem_def Let_def contains_map_of map_of_setitem
        dict_get_def split: option.splits)

theorem update_child_value_spec_witness:
  "map_of (children pending_node) 1 =
     Some \<lparr>id_c = 1, type_c = 3, description_c = ''sw'', values_c = [(2, PStr ''0'')]\<rparr> \<and>
   map_of (new_state pending_node) 1 =
     Some \<lparr>id_c = 1, type_c = 3, description_c = ''sw'', values_c = [(2, PStr ''1'')]\<rparr> \<and>
   fst (update_child_value 1 2 (PStr ''5'') pending_node) = Inr () \<and>
   children (snd (update_child_value 1 2 (PStr ''5'') pending_node)) =
     [(1, \<lparr>id_c = 1, type_c = 3, description_c = ''sw'', values_c = [(2, PStr ''5'')]\<rparr>)] \<and>
   new_state (snd (update_child_value 1 2 (PStr ''5'') pending_node)) =
     [(1, \<lparr>id_c = 1, type_c = 3, description_c = ''sw'', values_c = [(2, PNone)]\<rparr>)] \<and>
   \<not> contains (new_state switch_node) 1 \<and>
   new_state (snd (update_child_value 1 2 (PStr ''5'') switch_node)) = []"
proof -
  let ?actual = "\<lparr>id_c = 1, type_c = 3, description_c = ''sw'', values_c = [(2, PStr ''0'')]\<rparr>"
  let ?shadow = "\<lparr>id_c = 1, type_c = 3, description_c = ''sw'', values_c = [(2, PStr ''1'')]\<rparr>"
  let ?fresh = "\<lparr>id_c = 1, type_c = 3, description_c = ''sw'', values_c = []\<rparr>"
  have a: "map_of (children pending_node) 1 = Some ?actual"
    by (simp add: pending_node_eq)
  have b: "map_of (new_state pending_node) 1 = Some ?shadow"
    by (simp add: pending_node_eq)
  have e: "map_of (children switch_node) 1 = Some ?fresh"
    by (simp add: switch_node_eq)
  have n: "\<not> contains (new_state switch_node) 1"
    by (simp add: switch_node_eq contains_def)
  show ?thesis
    using a b n update_child_value_spec [OF a, of 2 "PStr ''5''"]
      update_child_value_spec [OF e, of 2 "PStr ''5''"]
    by (simp add: pending_node_eq switch_node_eq setitem_def)
qed

section \<open>Setting a desired value\<close>

text \<open>
  C5. \<^verbatim>\<open>set_child_desired_state\<close> returns without raising and leaves the whole
  sensor unchanged when the child has no shadow (in particular on every node that is
  not a smart-sleep node) and when \<^verbatim>\<open>validate_child_state\<close> returns
  \<^verbatim>\<open>False\<close>. When the child has a shadow and \<^verbatim>\<open>validate_child_state\<close> returns
  \<^verbatim>\<open>True\<close>, it stores the value under the value type in the shadow's value map:
  looking the child up in \<^verbatim>\<open>new_state\<close> afterwards gives a shadow whose value for
  the value type is the value, and a truthy value is what \<^verbatim>\<open>get_desired_value\<close>
  then returns. Nothing else changes: the shadow's other value types, its id, type
  and description, the other shadows, the keys of \<^verbatim>\<open>new_state\<close> and
  \<^verbatim>\<open>children\<close> are as before.
\<close>

theorem set_child_desired_state_spec:
  "(\<not> contains (new_state s) child_id \<longrightarrow>
      set_child_desired_state ext child_id value_type value s = (Inr (), s)) \<and>
   (\<not> is_smart_sleep_node s \<longrightarrow>
      set_child_desired_state ext child_id value_type value s = (Inr (), s)) \<and>
   (validate_child_state ext s child_id value_type value = Inr False \<longrightarrow>
      set_child_desired_state ext child_id value_type value s = (Inr (), s)) \<and>
   (\<forall>shadow. map_of (new_state s) child_id = Some shadow \<and>
      validate_child_state ext s child_id value_type value = Inr True \<longrightarrow>
      set_child_desired_state ext child_id value_type value s =
        (Inr (),
         s\<lparr>new_state := setitem (new_state s) child_id
              (shadow\<lparr>values_c := setitem (values_c shadow) value_type value\<rparr>)\<rparr>) \<and>
      (\<exists>shadow'.
         map_of (new_state (snd (set_child_desired_state ext child_id value_type value s)))
           child_id = Some shadow' \<and>
         map_of (values_c shadow') value_type = Some value \<and>
         dict_get (values_c shadow') value_type = value \<and>
         (\<forall>vt. vt \<noteq> value_type \<longrightarrow>
            map_of (values_c shadow') vt = map_of (values_c shadow) vt) \<and>
         id_c shadow' = id_c shadow \<and> type_c shadow' = type_c shadow \<and>
         description_c shadow' = description_c shadow) \<and>
      (\<forall>k. k \<noteq> child_id \<longrightarrow>
         map_of (new_state (snd (set_child_desired_state ext child_id value_type value s))) k =
           map_of (new_state s) k) \<and>
      map fst (new_state (snd (set_child_desired_state ext child_id value_type value s))) =
        map fst (new_state s) \<and>
      children (snd (set_child_desired_state ext child_id value_type value s)) = children s \<and>
      (contains (children s) child_id \<and> truthy value \<longrightarrow>
         get_desired_value (snd (set_child_desired_state ext child_id value_type value s))
           child_id value_type = Inr value))"
proof -
  have none: "\<not> contains (new_state s) child_id \<longrightarrow>
      set_child_desired_state ext child_id value_type value s = (Inr (), s)"
    by (simp add: set_child_desired_state_def)
  have plain: "\<not> is_smart_sleep_node s \<longrightarrow>
      set_child_desired_state ext child_id value_type value s = (Inr (), s)"
    by (simp add: set_child_desired_state_def is_smart_sleep_node_def contains_def)
  have rejected: "validate_child_state ext s child_id value_type value = Inr False \<longrightarrow>
      set_child_desired_state ext child_id value_type value s = (Inr (), s)"
    by (simp add: set_child_desired_state_def)
  have stored: "set_child_desired_state ext child_id value_type value s =
        (Inr (),
         s\<lparr>new_state := setitem (new_state s) child_id
              (shadow\<lparr>values_c := setitem (values_c shadow) value_type value\<rparr>)\<rparr>) \<and>
      (\<exists>shadow'.
         map_of (new_state (snd (set_child_desired_state ext child_id value_type value s)))
           child_id = Some shadow' \<and>
         map_of (values_c shadow') value_type = Some value \<and>
         dict_get (values_c shadow') value_type = value \<and>
         (\<forall>vt. vt \<noteq> value_type \<longrightarrow>
            map_of (values_c shadow') vt = map_of (values_c shadow) vt) \<and>
         id_c shadow' = id_c shadow \<and> type_c shadow' = type_c shadow \<and>
         description_c shadow' = description_c shadow) \<and>
      (\<forall>k. k \<noteq> child_id \<longrightarrow>
         map_of (new_state (snd (set_child_desired_state ext child_id value_type value s))) k =
           map_of (new_state s) k) \<and>
      map fst (new_state (snd (set_child_desired_state ext child_id value_type value s))) =
        map fst (new_state s) \<and>
      children (snd (set_child_desired_state ext child_id value_type value s)) = children s \<and>
      (contains (children s) child_id \<and> truthy value \<longrightarrow>
         get_desired_value (snd (set_child_desired_state ext child_id value_type value s))
           child_id value_type = Inr value)"
    if sh: "map_of (new_state s) child_id = Some shadow"
      and ok: "validate_child_state ext s child_id value_type value = Inr True"
    for shadow
  proof -
    let ?shadow = "shadow\<lparr>values_c := setitem (values_c shadow) value_type value\<rparr>"
    let ?ns = "setitem (new_state s) child_id ?shadow"
    have res: "set_child_desired_state ext child_id value_type value s =
        (Inr (), s\<lparr>new_state := ?ns\<rparr>)"
      using sh ok by (simp add: set_child_desired_state_def contains_map_of getitem_def)
    have look: "map_of ?ns child_id = Some ?shadow"
      by (simp add: map_of_setitem)
    have val: "map_of (values_c ?shadow) value_type = Some value"
      by (simp add: map_of_setitem)
    have others: "\<forall>vt. vt \<noteq> value_type \<longrightarrow>
        map_of (values_c ?shadow) vt = map_of (values_c shadow) vt"
      by (simp add: map_of_setitem)
    have rest: "\<forall>k. k \<noteq> child_id \<longrightarrow> map_of ?ns k = map_of (new_state s) k"
      by (simp add: map_of_setitem)
    have keys: "map fst ?ns = map fst (new_state s)"
      using sh by (rule keys_setitem_same)
    have "?ns \<noteq> []"
      using look by auto
    then have smart: "is_smart_sleep_node (s\<lparr>new_state := ?ns\<rparr>)"
      by (simp add: is_smart_sleep_node_def)
    have read: "contains (children s) child_id \<and> truthy value \<longrightarrow>
        get_desired_value (s\<lparr>new_state := ?ns\<rparr>) child_id value_type = Inr value"
      using smart look val
      by (auto simp: get_desired_value_def getitem_def contains_map_of dict_get_def)
    show ?thesis
      unfolding res using look val others rest keys read
      by (simp add: dict_get_def)
  qed
  show ?thesis
    using none plain rejected stored by blast
qed

theorem set_child_desired_state_spec_witness:
  "new_state reported_node =
     [(1, \<lparr>id_c = 1, type_c = 3, description_c = ''sw'', values_c = [(2, PNone)]\<rparr>)] \<and>
   \<not> contains (new_state reported_node) 2 \<and>
   set_child_desired_state example_collab 2 2 (PStr ''1'') reported_node = (Inr (), reported_node) \<and>
   \<not> is_smart_sleep_node switch_node \<and>
   set_child_desired_state example_collab 1 2 (PStr ''1'') switch_node = (Inr (), switch_node) \<and>
   validate_child_state example_collab reported_node 1 2 (PStr ''7'') = Inr False \<and>
   set_child_desired_state example_collab 1 2 (PStr ''7'') reported_node = (Inr (), reported_node) \<and>
   validate_child_state example_collab reported_node 1 2 (PStr ''1'') = Inr True \<and>
   set_child_desired_state example_collab 1 2 (PStr ''1'') reported_node =
     (Inr (),
      \<lparr>sensor_id = PInt 7,
       children = [(1, \<lparr>id_c = 1, type_c = 3, description_c = ''sw'',
                        values_c = [(2, PStr ''0'')]\<rparr>)],
       type_s = PNone, sketch_name = PNone, sketch_version = PNone,
       battery_level_attr = PInt 0, protocol_version_attr = PStr ''1.4'',
       heartbeat_attr = PInt 0,
       new_state = [(1, \<lparr>id_c = 1, type_c = 3, description_c = ''sw'',
                         values_c = [(2, PStr ''1'')]\<rparr>)],
       queue = [], reboot = False\<rparr>) \<and>
   contains (children reported_node) 1 \<and> truthy (PStr ''1'') \<and>
   get_desired_value reported_node 1 2 = Inr (PStr ''0'') \<and>
   get_desired_value
     (snd (set_child_desired_state example_collab 1 2 (PStr ''1'') reported_node)) 1 2 =
     Inr (PStr ''1'')"
proof -
  let ?unset = "\<lparr>id_c = 1, type_c = 3, description_c = ''sw'', values_c = [(2, PNone)]\<rparr>"
  have before: "new_state reported_node = [(1, ?unset)]"
    by (simp add: reported_node_eq)
  have a: "\<not> contains (new_state reported_node) 2"
    by (simp add: reported_node_eq contains_def)
  have b: "\<not> is_smart_sleep_node switch_node"
    by (simp add: switch_node_eq is_smart_sleep_node_def)
  have c: "validate_child_state example_collab reported_node 1 2 (PStr ''7'') = Inr False"
    by (simp add: reported_node_eq switch_node_eq model_defs example_defs)
  have d: "validate_child_state example_collab reported_node 1 2 (PStr ''1'') = Inr True"
    by (simp add: reported_node_eq switch_node_eq model_defs example_defs)
  have e: "map_of (new_state reported_node) 1 = Some ?unset"
    by (simp add: reported_node_eq)
  have g: "contains (children reported_node) 1 \<and> truthy (PStr ''1'')"
    by (simp add: reported_node_eq contains_def)
  have h: "get_desired_value reported_node 1 2 = Inr (PStr ''0'')"
    by (simp add: reported_node_eq switch_node_eq model_defs)
  note spec = set_child_desired_state_spec [of reported_node 1 example_collab 2 "PStr ''1''"]
  have f: "set_child_desired_state example_collab 1 2 (PStr ''1'') reported_node =
      (Inr (), reported_node\<lparr>new_state := setitem (new_state reported_node) 1
         (?unset\<lparr>values_c := setitem (values_c ?unset) 2 (PStr ''1'')\<rparr>)\<rparr>)"
    using spec d e by blast
  have f': "reported_node\<lparr>new_state := setitem (new_state reported_node) 1
         (?unset\<lparr>values_c := setitem (values_c ?unset) 2 (PStr ''1'')\<rparr>)\<rparr> =
      \<lparr>sensor_id = PInt 7,
       children = [(1, \<lparr>id_c = 1, type_c = 3, description_c = ''sw'',
                        values_c = [(2, PStr ''0'')]\<rparr>)],
       type_s = PNone, sketch_name = PNone, sketch_version = PNone,
       battery_level_attr = PInt 0, protocol_version_attr = PStr ''1.4'',
       heartbeat_attr = PInt 0,
       new_state = [(1, \<lparr>id_c = 1, type_c = 3, description_c = ''sw'',
                         values_c = [(2, PStr ''1'')]\<rparr>)],
       queue = [], reboot = False\<rparr>"
    by (simp add: reported_node_eq switch_node_eq setitem_def)
  have r: "get_desired_value
     (snd (set_child_desired_state example_collab 1 2 (PStr ''1'') reported_node)) 1 2 =
     Inr (PStr ''1'')"
    using spec d e g by blast
  have n1: "set_child_desired_state example_collab 2 2 (PStr ''1'') reported_node =
      (Inr (), reported_node)"
    using a set_child_desired_state_spec [of reported_node 2 example_collab 2 "PStr ''1''"]
    by blast
  have n2: "set_child_desired_state example_collab 1 2 (PStr ''1'') switch_node =
      (Inr (), switch_node)"
    using b set_child_desired_state_spec [of switch_node 1 example_collab 2 "PStr ''1''"]
    by blast
  have n3: "set_child_desired_state example_collab 1 2 (PStr ''7'') reported_node =
      (Inr (), reported_node)"
    using c set_child_desired_state_spec [of reported_node 1 example_collab 2 "PStr ''7''"]
    by blast
  show ?thesis
    using before a b c d g h r n1 n2 n3 f [unfolded f'] by simp
qed

section \<open>Saving and loading a sensor\<close>

lemma busy_node_fields:
  "sensor_id busy_node = PInt 7 \<and>
   children busy_node =
     [(1, \<lparr>id_c = 1, type_c = 3, description_c = ''sw'', values_c = [(2, PStr ''0'')]\<rparr>)] \<and>
   type_s busy_node = PNone \<and> sketch_name busy_node = PNone \<and>
   sketch_version busy_node = PNone \<and> battery_level_attr busy_node = PInt 0 \<and>
   protocol_version_attr busy_node = PStr ''1.4'' \<and> heartbeat_attr busy_node = PInt 0 \<and>
   new_state busy_node =
     [(1, \<lparr>id_c = 1, type_c = 3, description_c = ''sw'', values_c = [(2, PStr ''1'')]\<rparr>)] \<and>
   queue busy_node = [PStr ''7;1;1;0;2;1''] \<and> reboot busy_node = True"
  by (simp add: busy_node_def pending_node_eq switch_node_eq)

lemma getstate_eq: "getstate s = public_part s @ scalar_part s"
  by (simp add: getstate_def dict_of_def getstate_step_def pop_def setitem_def
        public_part_def scalar_part_def)

lemma setstate_loop_append:
  "setstate_loop ext (xs @ ys) d =
     (case setstate_loop ext xs d of Inl e \<Rightarrow> Inl e | Inr d' \<Rightarrow> setstate_loop ext ys d')"
  by (induction xs arbitrary: d) (auto split: sum.splits)

lemma setstate_loop_public: "setstate_loop ext (public_part s) [] = Inr (public_part s)"
  by (simp add: public_part_def setattr_def setitem_def)

lemma setattr_property_keeps:
  assumes "key \<in> property_names" and "setattr ext d key val = Inr d'"
    and "k \<notin> private_names"
  shows "map_of d' k = map_of d k"
  using assms
  by (auto simp: setattr_def property_names_def private_names_def map_of_setitem
        split: sum.splits if_splits)

lemma setstate_loop_properties_keep:
  assumes "setstate_loop ext xs d = Inr d'" and "fst ` set xs \<subseteq> property_names"
    and "k \<notin> private_names"
  shows "map_of d' k = map_of d k"
  using assms
proof (induction xs arbitrary: d)
  case Nil
  then show ?case by simp
next
  case (Cons x xs)
  obtain key val where x: "x = (key, val)" by (cases x)
  from Cons.prems(1) x obtain d1 where
    d1: "setattr ext d key val = Inr d1" and rest: "setstate_loop ext xs d1 = Inr d'"
    by (auto split: sum.splits)
  have "key \<in> property_names" using Cons.prems(2) x by simp
  then have "map_of d1 k = map_of d k"
    using setattr_property_keeps d1 Cons.prems(3) by blast
  moreover have "map_of d' k = map_of d1 k"
    using Cons.IH [OF rest] Cons.prems(2,3) by simp
  ultimately show ?case by simp
qed

lemma scalar_part_keys: "fst ` set (scalar_part s) \<subseteq> property_names"
  by (auto simp: scalar_part_def property_names_def)

lemma setstate_keeps:
  assumes "setstate ext (getstate s) = Inr d" and "k \<notin> private_names"
  shows "map_of d k =
           ((map_of (public_part s))
              (''new_state'' \<mapsto> Children [], ''queue'' \<mapsto> Queue [],
               ''reboot'' \<mapsto> Val (PBool False))) k"
proof -
  from assms(1) obtain d0 where
    d0: "setstate_loop ext (scalar_part s) (public_part s) = Inr d0"
    by (auto simp: setstate_def getstate_eq setstate_loop_append setstate_loop_public
          split: sum.splits)
  let ?d3 = "setitem (setitem (setitem d0 ''new_state'' (Children [])) ''queue'' (Queue []))
               ''reboot'' (Val (PBool False))"
  have fin: "(if \<not> contains ?d3 ''_heartbeat''
              then setattr ext ?d3 ''heartbeat'' (Val (PInt 0)) else Inr ?d3) = Inr d"
    using assms(1) d0
    by (simp add: setstate_def getstate_eq setstate_loop_append setstate_loop_public Let_def)
  have "map_of d k = map_of ?d3 k"
  proof (cases "contains ?d3 ''_heartbeat''")
    case True
    with fin show ?thesis by simp
  next
    case False
    with fin have "setattr ext ?d3 ''heartbeat'' (Val (PInt 0)) = Inr d" by simp
    then show ?thesis
      using setattr_property_keeps [of "''heartbeat''" ext ?d3 "Val (PInt 0)" d k] assms(2)
      by (simp add: property_names_def)
  qed
  moreover have "map_of d0 k = map_of (public_part s) k"
    using setstate_loop_properties_keep [OF d0 scalar_part_keys assms(2)] .
  ultimately show ?thesis
    by (simp add: map_of_setitem)
qed

lemma setstate_getstate_fields:
  assumes "setstate ext (getstate s) = Inr d"
  shows "map_of d ''sensor_id'' = Some (Val (sensor_id s)) \<and>
         map_of d ''children'' = Some (Children (children s)) \<and>
         map_of d ''type'' = Some (Val (type_s s)) \<and>
         map_of d ''sketch_name'' = Some (Val (sketch_name s)) \<and>
         map_of d ''sketch_version'' = Some (Val (sketch_version s)) \<and>
         map_of d ''new_state'' = Some (Children []) \<and>
         map_of d ''queue'' = Some (Queue []) \<and>
         map_of d ''reboot'' = Some (Val (PBool False))"
proof -
  have a: "map_of d ''sensor_id'' = Some (Val (sensor_id s))"
    using setstate_keeps [OF assms, of "''sensor_id''"]
    by (simp add: private_names_def public_part_def)
  have b: "map_of d ''children'' = Some (Children (children s))"
    using setstate_keeps [OF assms, of "''children''"]
    by (simp add: private_names_def public_part_def)
  have c: "map_of d ''type'' = Some (Val (type_s s))"
    using setstate_keeps [OF assms, of "''type''"]
    by (simp add: private_names_def public_part_def)
  have e: "map_of d ''sketch_name'' = Some (Val (sketch_name s))"
    using setstate_keeps [OF assms, of "''sketch_name''"]
    by (simp add: private_names_def public_part_def)
  have f: "map_of d ''sketch_version'' = Some (Val (sketch_version s))"
    using setstate_keeps [OF assms, of "''sketch_version''"]
    by (simp add: private_names_def public_part_def)
  have g: "map_of d ''new_state'' = Some (Children [])"
    using setstate_keeps [OF assms, of "''new_state''"]
    by (simp add: private_names_def public_part_def)
  have h: "map_of d ''queue'' = Some (Queue [])"
    using setstate_keeps [OF assms, of "''queue''"]
    by (simp add: private_names_def public_part_def)
  have i: "map_of d ''reboot'' = Some (Val (PBool False))"
    using setstate_keeps [OF assms, of "''reboot''"]
    by (simp add: private_names_def public_part_def)
  show ?thesis using a b c e f g h i by simp
qed

lemma sensor_of_fields:
  assumes "sensor_of d = Some s'"
  shows "map_of d ''children'' = Some (Children (children s')) \<and>
         map_of d ''new_state'' = Some (Children (new_state s')) \<and>
         map_of d ''queue'' = Some (Queue (queue s')) \<and>
         map_of d ''reboot'' = Some (Val (PBool (reboot s')))"
proof -
  from assms obtain ch ns q rb where
    ch: "attr_children d ''children'' = Some ch" and
    ns: "attr_children d ''new_state'' = Some ns" and
    q: "attr_queue d ''queue'' = Some q" and
    rb: "attr_bool d ''reboot'' = Some rb" and
    eq: "children s' = ch \<and> new_state s' = ns \<and> queue s' = q \<and> reboot s' = rb"
    by (auto simp: sensor_of_def Option.bind_eq_Some_conv)
  have "map_of d ''children'' = Some (Children ch)"
    using ch by (auto simp: attr_children_def split: option.splits pyobj.splits)
  moreover have "map_of d ''new_state'' = Some (Children ns)"
    using ns by (auto simp: attr_children_def split: option.splits pyobj.splits)
  moreover have "map_of d ''queue'' = Some (Queue q)"
    using q by (auto simp: attr_queue_def split: option.splits pyobj.splits)
  moreover have "map_of d ''reboot'' = Some (Val (PBool rb))"
    using rb by (auto simp: attr_bool_def split: option.splits pyobj.splits pyval.splits)
  ultimately show ?thesis using eq by simp
qed

lemma load_resets:
  assumes "setstate ext (getstate s) = Inr d" and "sensor_of d = Some s'"
  shows "children s' = children s \<and> new_state s' = [] \<and> queue s' = [] \<and> reboot s' = False"
  using setstate_getstate_fields [OF assms(1)] sensor_of_fields [OF assms(2)] by simp

lemma sensor_of_loaded:
  "sensor_of (loaded s b h p) =
     Some (s\<lparr>battery_level_attr := b, heartbeat_attr := h, protocol_version_attr := p,
             new_state := [], queue := [], reboot := False\<rparr>)"
  by (simp add: loaded_def sensor_of_def attr_val_def attr_children_def attr_queue_def
        attr_bool_def)

lemma load_total:
  assumes "is_battery_level ext (Val (battery_level_attr s)) = Inr b"
    and "is_heartbeat ext (Val (heartbeat_attr s)) = Inr h"
    and "safe_is_version ext (Val (protocol_version_attr s)) = Inr p"
    and "battery_level_attr s \<noteq> PNone" and "heartbeat_attr s \<noteq> PNone"
    and "protocol_version_attr s \<noteq> PNone"
  shows "setstate ext (getstate s) = Inr (loaded s b h p)"
proof -
  have sp: "scalar_part s =
      [(''battery_level'', Val (battery_level_attr s)),
       (''heartbeat'', Val (heartbeat_attr s)),
       (''protocol_version'', Val (protocol_version_attr s))]"
    using assms(4-6) by (simp add: scalar_part_def)
  have loop: "setstate_loop ext (scalar_part s) (public_part s) =
      Inr (public_part s @
           [(''_battery_level'', Val b), (''_heartbeat'', Val h), (''_protocol_version'', Val p)])"
    unfolding sp using assms(1-3)
    by (simp add: setattr_def setitem_def public_part_def)
  have whole: "setstate_loop ext (getstate s) [] =
      Inr (public_part s @
           [(''_battery_level'', Val b), (''_heartbeat'', Val h), (''_protocol_version'', Val p)])"
    by (simp add: getstate_eq setstate_loop_append setstate_loop_public loop)
  show ?thesis
    unfolding setstate_def whole
    by (simp add: public_part_def loaded_def setitem_def contains_def)
qed

lemma getstate_public:
  "map_of (getstate s) ''sensor_id'' = Some (Val (sensor_id s)) \<and>
   map_of (getstate s) ''children'' = Some (Children (children s)) \<and>
   map_of (getstate s) ''type'' = Some (Val (type_s s)) \<and>
   map_of (getstate s) ''sketch_name'' = Some (Val (sketch_name s)) \<and>
   map_of (getstate s) ''sketch_version'' = Some (Val (sketch_version s)) \<and>
   map_of (getstate s) ''new_state'' = Some (Children (new_state s)) \<and>
   map_of (getstate s) ''queue'' = Some (Queue (queue s)) \<and>
   map_of (getstate s) ''reboot'' = Some (Val (PBool (reboot s)))"
  by (simp add: getstate_eq public_part_def)

lemma getstate_scalars:
  "(battery_level_attr s \<noteq> PNone \<longrightarrow>
      map_of (getstate s) ''battery_level'' = Some (Val (battery_level_attr s))) \<and>
   (heartbeat_attr s \<noteq> PNone \<longrightarrow>
      map_of (getstate s) ''heartbeat'' = Some (Val (heartbeat_attr s))) \<and>
   (protocol_version_attr s \<noteq> PNone \<longrightarrow>
      map_of (getstate s) ''protocol_version'' = Some (Val (protocol_version_attr s)))"
  by (simp add: getstate_eq public_part_def scalar_part_def)

text \<open>
  C1, as claimed: the saved record holds neither the pending queue, nor the reboot
  flag, nor the desired-state mapping. \<^verbatim>\<open>__getstate__\<close> copies the whole
  \<^verbatim>\<open>__dict__\<close> and renames only the three validated scalars, so the record of a
  node with a queued message, the reboot flag set and a pending desired value holds
  all three.
\<close>

theorem getstate_keeps_transient_counterexample:
  "map_of (getstate busy_node) ''queue'' = Some (Queue [PStr ''7;1;1;0;2;1'']) \<and>
   map_of (getstate busy_node) ''reboot'' = Some (Val (PBool True)) \<and>
   map_of (getstate busy_node) ''new_state'' =
     Some (Children
       [(1, \<lparr>id_c = 1, type_c = 3, description_c = ''sw'', values_c = [(2, PStr ''1'')]\<rparr>)])"
  using getstate_public [of busy_node] by (simp add: busy_node_fields)

text \<open>
  C1, amended. The saved record holds the identity, the metadata, the children and,
  under their public names, the battery level, heartbeat and protocol version that
  are not \<^verbatim>\<open>None\<close>; it also holds the queue, the reboot flag and the desired-state
  mapping as they are. Whenever \<^verbatim>\<open>__setstate__\<close> returns on a saved record, the
  restored queue is empty, the reboot flag false and the desired-state mapping empty;
  and it does return, with every other attribute as saved, when the validators accept
  the saved scalars.
\<close>

theorem getstate_setstate_spec:
  "map_of (getstate s) ''sensor_id'' = Some (Val (sensor_id s)) \<and>
   map_of (getstate s) ''children'' = Some (Children (children s)) \<and>
   map_of (getstate s) ''type'' = Some (Val (type_s s)) \<and>
   map_of (getstate s) ''sketch_name'' = Some (Val (sketch_name s)) \<and>
   map_of (getstate s) ''sketch_version'' = Some (Val (sketch_version s)) \<and>
   (battery_level_attr s \<noteq> PNone \<longrightarrow>
      map_of (getstate s) ''battery_level'' = Some (Val (battery_level_attr s))) \<and>
   (heartbeat_attr s \<noteq> PNone \<longrightarrow>
      map_of (getstate s) ''heartbeat'' = Some (Val (heartbeat_attr s))) \<and>
   (protocol_version_attr s \<noteq> PNone \<longrightarrow>
      map_of (getstate s) ''protocol_version'' = Some (Val (protocol_version_attr s))) \<and>
   map_of (getstate s) ''new_state'' = Some (Children (new_state s)) \<and>
   map_of (getstate s) ''queue'' = Some (Queue (queue s)) \<and>
   map_of (getstate s) ''reboot'' = Some (Val (PBool (reboot s))) \<and>
   (\<forall>d. setstate ext (getstate s) = Inr d \<longrightarrow>
      map_of d ''new_state'' = Some (Children []) \<and>
      map_of d ''queue'' = Some (Queue []) \<and>
      map_of d ''reboot'' = Some (Val (PBool False))) \<and>
   (\<forall>b h p.
      is_battery_level ext (Val (battery_level_attr s)) = Inr b \<and>
      is_heartbeat ext (Val (heartbeat_attr s)) = Inr h \<and>
      safe_is_version ext (Val (protocol_version_attr s)) = Inr p \<and>
      battery_level_attr s \<noteq> PNone \<and> heartbeat_attr s \<noteq> PNone \<and>
      protocol_version_attr s \<noteq> PNone \<longrightarrow>
      (\<exists>d. setstate ext (getstate s) = Inr d \<and>
           sensor_of d =
             Some (s\<lparr>battery_level_attr := b, heartbeat_attr := h,
                     protocol_version_attr := p, new_state := [], queue := [],
                     reboot := False\<rparr>)))"
proof -
  have load: "\<forall>d. setstate ext (getstate s) = Inr d \<longrightarrow>
      map_of d ''new_state'' = Some (Children []) \<and>
      map_of d ''queue'' = Some (Queue []) \<and>
      map_of d ''reboot'' = Some (Val (PBool False))"
    using setstate_getstate_fields by blast
  have total: "\<forall>b h p.
      is_battery_level ext (Val (battery_level_attr s)) = Inr b \<and>
      is_heartbeat ext (Val (heartbeat_attr s)) = Inr h \<and>
      safe_is_version ext (Val (protocol_version_attr s)) = Inr p \<and>
      battery_level_attr s \<noteq> PNone \<and> heartbeat_attr s \<noteq> PNone \<and>
      protocol_version_attr s \<noteq> PNone \<longrightarrow>
      (\<exists>d. setstate ext (getstate s) = Inr d \<and>
           sensor_of d =
             Some (s\<lparr>battery_level_attr := b, heartbeat_attr := h,
                     protocol_version_attr := p, new_state := [], queue := [],
                     reboot := False\<rparr>))"
    using load_total sensor_of_loaded by blast
  show ?thesis
    using getstate_public [of s] getstate_scalars [of s] load total by blast
qed

theorem getstate_setstate_spec_witness:
  "battery_level_attr busy_node \<noteq> PNone \<and> heartbeat_attr busy_node \<noteq> PNone \<and>
   protocol_version_attr busy_node \<noteq> PNone \<and>
   is_battery_level example_collab (Val (battery_level_attr busy_node)) = Inr (PInt 0) \<and>
   is_heartbeat example_collab (Val (heartbeat_attr busy_node)) = Inr (PInt 0) \<and>
   safe_is_version example_collab (Val (protocol_version_attr busy_node)) = Inr (PStr ''1.4'') \<and>
   map_of (getstate busy_node) ''battery_level'' = Some (Val (PInt 0)) \<and>
   map_of (getstate busy_node) ''heartbeat'' = Some (Val (PInt 0)) \<and>
   map_of (getstate busy_node) ''protocol_version'' = Some (Val (PStr ''1.4'')) \<and>
   (\<exists>d. setstate example_collab (getstate busy_node) = Inr d \<and>
        map_of d ''new_state'' = Some (Children []) \<and>
        map_of d ''queue'' = Some (Queue []) \<and>
        map_of d ''reboot'' = Some (Val (PBool False)) \<and>
        sensor_of d = Some (busy_node\<lparr>new_state := [], queue := [], reboot := False\<rparr>))"
proof -
  have a: "battery_level_attr busy_node \<noteq> PNone \<and> heartbeat_attr busy_node \<noteq> PNone \<and>
      protocol_version_attr busy_node \<noteq> PNone"
    by (simp add: busy_node_fields)
  have b: "is_battery_level example_collab (Val (battery_level_attr busy_node)) = Inr (PInt 0)"
    by (simp add: busy_node_fields example_defs)
  have c: "is_heartbeat example_collab (Val (heartbeat_attr busy_node)) = Inr (PInt 0)"
    by (simp add: busy_node_fields example_defs)
  have e: "safe_is_version example_collab (Val (protocol_version_attr busy_node)) =
      Inr (PStr ''1.4'')"
    by (simp add: busy_node_fields example_defs)
  have same: "busy_node\<lparr>battery_level_attr := PInt 0, heartbeat_attr := PInt 0,
      protocol_version_attr := PStr ''1.4'', new_state := [], queue := [], reboot := False\<rparr> =
      busy_node\<lparr>new_state := [], queue := [], reboot := False\<rparr>"
    by (simp add: busy_node_def pending_node_eq switch_node_eq)
  note spec = getstate_setstate_spec [of busy_node example_collab]
  from spec a b c e obtain d where
    d: "setstate example_collab (getstate busy_node) = Inr d" and
    s: "sensor_of d = Some (busy_node\<lparr>battery_level_attr := PInt 0, heartbeat_attr := PInt 0,
      protocol_version_attr := PStr ''1.4'', new_state := [], queue := [], reboot := False\<rparr>)"
    by blast
  from spec d have r: "map_of d ''new_state'' = Some (Children []) \<and>
        map_of d ''queue'' = Some (Queue []) \<and>
        map_of d ''reboot'' = Some (Val (PBool False))"
    by blast
  have g: "map_of (getstate busy_node) ''battery_level'' = Some (Val (PInt 0)) \<and>
   map_of (getstate busy_node) ''heartbeat'' = Some (Val (PInt 0)) \<and>
   map_of (getstate busy_node) ''protocol_version'' = Some (Val (PStr ''1.4''))"
    using spec a by (simp add: busy_node_fields)
  show ?thesis
    using a b c e g d r s same by auto
qed

section \<open>The scalar setters\<close>

text \<open>
  Whatever the validators are, a setter raises what its validator raises and leaves
  the sensor as it is, and stores what its validator returns.
\<close>

lemma setters_follow_validators:
  "(is_battery_level ext value = Inl e \<longrightarrow>
      set_battery_level ext value s = (Inl e, s)) \<and>
   (is_battery_level ext value = Inr v \<longrightarrow>
      set_battery_level ext value s = (Inr (), s\<lparr>battery_level_attr := v\<rparr>)) \<and>
   (is_heartbeat ext value = Inl e \<longrightarrow>
      set_heartbeat ext value s = (Inl e, s)) \<and>
   (is_heartbeat ext value = Inr v \<longrightarrow>
      set_heartbeat ext value s = (Inr (), s\<lparr>heartbeat_attr := v\<rparr>)) \<and>
   (safe_is_version ext value = Inl e \<longrightarrow>
      set_protocol_version ext value s = (Inl e, s)) \<and>
   (safe_is_version ext value = Inr v \<longrightarrow>
      set_protocol_version ext value s = (Inr (), s\<lparr>protocol_version_attr := v\<rparr>))"
  by (simp add: set_battery_level_def set_heartbeat_def set_protocol_version_def)

lemma spec_validator_rejects: "\<not> passes domain x \<Longrightarrow> spec_validator domain x = Inl Invalid"
  by (auto simp: passes_def spec_validator_def split: pyobj.splits)

lemma spec_validator_accepts: "domain v \<Longrightarrow> spec_validator domain (Val v) = Inr v"
  by (simp add: spec_validator_def)

lemma spec_validator_cases:
  "spec_validator domain x = Inl Invalid \<or> (\<exists>v. x = Val v \<and> domain v \<and> spec_validator domain x = Inr v)"
  by (auto simp: spec_validator_def split: pyobj.splits)

text \<open>
  C6. With the validators as the specification words them, for each of
  \<^verbatim>\<open>battery_level\<close>, \<^verbatim>\<open>heartbeat\<close> and \<^verbatim>\<open>protocol_version\<close>: assigning a
  value that fails the field's domain check raises \<^verbatim>\<open>Invalid\<close> and leaves the
  sensor, so the stored value, as it was; assigning a value that passes the check
  stores that value, which is then read back. The scalars of a fresh sensor are in
  their domains, and every setter call, raising or not, leaves them there.
\<close>

theorem scalar_setters_validated:
  "(\<not> passes valid_battery_level value \<longrightarrow>
      set_battery_level (spec_validators bound grammar ext) value s = (Inl Invalid, s) \<and>
      battery_level (snd (set_battery_level (spec_validators bound grammar ext) value s)) =
        battery_level s) \<and>
   (valid_battery_level v \<longrightarrow>
      set_battery_level (spec_validators bound grammar ext) (Val v) s =
        (Inr (), s\<lparr>battery_level_attr := v\<rparr>) \<and>
      battery_level (snd (set_battery_level (spec_validators bound grammar ext) (Val v) s)) = v) \<and>
   (\<not> passes (valid_heartbeat bound) value \<longrightarrow>
      set_heartbeat (spec_validators bound grammar ext) value s = (Inl Invalid, s) \<and>
      heartbeat (snd (set_heartbeat (spec_validators bound grammar ext) value s)) =
        heartbeat s) \<and>
   (valid_heartbeat bound v \<longrightarrow>
      set_heartbeat (spec_validators bound grammar ext) (Val v) s =
        (Inr (), s\<lparr>heartbeat_attr := v\<rparr>) \<and>
      heartbeat (snd (set_heartbeat (spec_validators bound grammar ext) (Val v) s)) = v) \<and>
   (\<not> passes (valid_version grammar) value \<longrightarrow>
      set_protocol_version (spec_validators bound grammar ext) value s = (Inl Invalid, s) \<and>
      protocol_version (snd (set_protocol_version (spec_validators bound grammar ext) value s)) =
        protocol_version s) \<and>
   (valid_version grammar v \<longrightarrow>
      set_protocol_version (spec_validators bound grammar ext) (Val v) s =
        (Inr (), s\<lparr>protocol_version_attr := v\<rparr>) \<and>
      protocol_version
        (snd (set_protocol_version (spec_validators bound grammar ext) (Val v) s)) = v) \<and>
   (0 \<le> bound \<and> grammar ''1.4'' \<longrightarrow> scalars_valid bound grammar (Sensor_init sid)) \<and>
   (scalars_valid bound grammar s \<longrightarrow>
      scalars_valid bound grammar
        (snd (set_battery_level (spec_validators bound grammar ext) value s)) \<and>
      scalars_valid bound grammar
        (snd (set_heartbeat (spec_validators bound grammar ext) value s)) \<and>
      scalars_valid bound grammar
        (snd (set_protocol_version (spec_validators bound grammar ext) value s)))"
proof -
  let ?ext = "spec_validators bound grammar ext"
  have bl: "is_battery_level ?ext = spec_validator valid_battery_level"
    and hb: "is_heartbeat ?ext = spec_validator (valid_heartbeat bound)"
    and pv: "safe_is_version ?ext = spec_validator (valid_version grammar)"
    by (simp_all add: spec_validators_def)
  note follow = setters_follow_validators [of ?ext]
  have b1: "\<not> passes valid_battery_level value \<longrightarrow>
      set_battery_level ?ext value s = (Inl Invalid, s) \<and>
      battery_level (snd (set_battery_level ?ext value s)) = battery_level s"
    using follow [of "value" Invalid s] spec_validator_rejects [of valid_battery_level "value"]
    by (simp add: bl)
  have b2: "valid_battery_level v \<longrightarrow>
      set_battery_level ?ext (Val v) s = (Inr (), s\<lparr>battery_level_attr := v\<rparr>) \<and>
      battery_level (snd (set_battery_level ?ext (Val v) s)) = v"
    using follow [of "Val v" _ s v] spec_validator_accepts [of valid_battery_level v]
    by (simp add: bl battery_level_def)
  have h1: "\<not> passes (valid_heartbeat bound) value \<longrightarrow>
      set_heartbeat ?ext value s = (Inl Invalid, s) \<and>
      heartbeat (snd (set_heartbeat ?ext value s)) = heartbeat s"
    using follow [of "value" Invalid s] spec_validator_rejects [of "valid_heartbeat bound" "value"]
    by (simp add: hb)
  have h2: "valid_heartbeat bound v \<longrightarrow>
      set_heartbeat ?ext (Val v) s = (Inr (), s\<lparr>heartbeat_attr := v\<rparr>) \<and>
      heartbeat (snd (set_heartbeat ?ext (Val v) s)) = v"
    using follow [of "Val v" _ s v] spec_validator_accepts [of "valid_heartbeat bound" v]
    by (simp add: hb heartbeat_def)
  have p1: "\<not> passes (valid_version grammar) value \<longrightarrow>
      set_protocol_version ?ext value s = (Inl Invalid, s) \<and>
      protocol_version (snd (set_protocol_version ?ext value s)) = protocol_version s"
    using follow [of "value" Invalid s] spec_validator_rejects [of "valid_version grammar" "value"]
    by (simp add: pv)
  have p2: "valid_version grammar v \<longrightarrow>
      set_protocol_version ?ext (Val v) s = (Inr (), s\<lparr>protocol_version_attr := v\<rparr>) \<and>
      protocol_version (snd (set_protocol_version ?ext (Val v) s)) = v"
    using follow [of "Val v" _ s v] spec_validator_accepts [of "valid_version grammar" v]
    by (simp add: pv protocol_version_def)
  have init: "0 \<le> bound \<and> grammar ''1.4'' \<longrightarrow> scalars_valid bound grammar (Sensor_init sid)"
    by (simp add: scalars_valid_def Sensor_init_def battery_level_def heartbeat_def
          protocol_version_def valid_battery_level_def valid_heartbeat_def valid_version_def)
  have keep: "scalars_valid bound grammar s \<longrightarrow>
      scalars_valid bound grammar (snd (set_battery_level ?ext value s)) \<and>
      scalars_valid bound grammar (snd (set_heartbeat ?ext value s)) \<and>
      scalars_valid bound grammar (snd (set_protocol_version ?ext value s))"
  proof
    assume inv: "scalars_valid bound grammar s"
    have 1: "scalars_valid bound grammar (snd (set_battery_level ?ext value s))"
      using spec_validator_cases [of valid_battery_level "value"] inv
      by (auto simp: set_battery_level_def bl scalars_valid_def battery_level_def heartbeat_def
            protocol_version_def)
    have 2: "scalars_valid bound grammar (snd (set_heartbeat ?ext value s))"
      using spec_validator_cases [of "valid_heartbeat bound" "value"] inv
      by (auto simp: set_heartbeat_def hb scalars_valid_def battery_level_def heartbeat_def
            protocol_version_def)
    have 3: "scalars_valid bound grammar (snd (set_protocol_version ?ext value s))"
      using spec_validator_cases [of "valid_version grammar" "value"] inv
      by (auto simp: set_protocol_version_def pv scalars_valid_def battery_level_def
            heartbeat_def protocol_version_def)
    show "scalars_valid bound grammar (snd (set_battery_level ?ext value s)) \<and>
      scalars_valid bound grammar (snd (set_heartbeat ?ext value s)) \<and>
      scalars_valid bound grammar (snd (set_protocol_version ?ext value s))"
      using 1 2 3 by simp
  qed
  show ?thesis
    using b1 b2 h1 h2 p1 p2 init keep by blast
qed

theorem scalar_setters_validated_witness:
  "\<not> passes valid_battery_level (Val (PInt 150)) \<and>
   set_battery_level (spec_validators 255 example_grammar example_collab) (Val (PInt 150))
     switch_node = (Inl Invalid, switch_node) \<and>
   battery_level switch_node = PInt 0 \<and>
   valid_battery_level (PInt 50) \<and>
   battery_level
     (snd (set_battery_level (spec_validators 255 example_grammar example_collab)
        (Val (PInt 50)) switch_node)) = PInt 50 \<and>
   \<not> passes (valid_heartbeat 255) (Val (PInt (- 1))) \<and>
   set_heartbeat (spec_validators 255 example_grammar example_collab) (Val (PInt (- 1)))
     switch_node = (Inl Invalid, switch_node) \<and>
   valid_heartbeat 255 (PInt 9) \<and>
   heartbeat
     (snd (set_heartbeat (spec_validators 255 example_grammar example_collab)
        (Val (PInt 9)) switch_node)) = PInt 9 \<and>
   \<not> passes (valid_version example_grammar) (Val (PStr ''0.9'')) \<and>
   set_protocol_version (spec_validators 255 example_grammar example_collab)
     (Val (PStr ''0.9'')) switch_node = (Inl Invalid, switch_node) \<and>
   protocol_version switch_node = PStr ''1.4'' \<and>
   valid_version example_grammar (PStr ''2.0'') \<and>
   protocol_version
     (snd (set_protocol_version (spec_validators 255 example_grammar example_collab)
        (Val (PStr ''2.0'')) switch_node)) = PStr ''2.0'' \<and>
   scalars_valid 255 example_grammar switch_node \<and>
   scalars_valid 255 example_grammar
     (snd (set_battery_level (spec_validators 255 example_grammar example_collab)
        (Val (PInt 150)) switch_node))"
proof -
  let ?ext = "spec_validators 255 example_grammar example_collab"
  have a1: "\<not> passes valid_battery_level (Val (PInt 150))"
    by (simp add: passes_def valid_battery_level_def)
  have a2: "valid_battery_level (PInt 50)"
    by (simp add: valid_battery_level_def)
  have b1: "\<not> passes (valid_heartbeat 255) (Val (PInt (- 1)))"
    by (simp add: passes_def valid_heartbeat_def)
  have b2: "valid_heartbeat 255 (PInt 9)"
    by (simp add: valid_heartbeat_def)
  have c1: "\<not> passes (valid_version example_grammar) (Val (PStr ''0.9''))"
    by (simp add: passes_def valid_version_def example_grammar_def)
  have c2: "valid_version example_grammar (PStr ''2.0'')"
    by (simp add: valid_version_def example_grammar_def)
  have d1: "battery_level switch_node = PInt 0"
    by (simp add: switch_node_eq battery_level_def)
  have d2: "protocol_version switch_node = PStr ''1.4''"
    by (simp add: switch_node_eq protocol_version_def)
  have inv: "scalars_valid 255 example_grammar switch_node"
    by (simp add: scalars_valid_def switch_node_eq battery_level_def heartbeat_def
          protocol_version_def valid_battery_level_def valid_heartbeat_def valid_version_def
          example_grammar_def)
  have r1: "set_battery_level ?ext (Val (PInt 150)) switch_node = (Inl Invalid, switch_node)"
    using a1 scalar_setters_validated [of "Val (PInt 150)" 255 example_grammar example_collab
        switch_node "PInt 50" "PInt 7"]
    by blast
  have r2: "battery_level (snd (set_battery_level ?ext (Val (PInt 50)) switch_node)) = PInt 50"
    using a2 scalar_setters_validated [of "Val (PInt 150)" 255 example_grammar example_collab
        switch_node "PInt 50" "PInt 7"]
    by blast
  have r3: "set_heartbeat ?ext (Val (PInt (- 1))) switch_node = (Inl Invalid, switch_node)"
    using b1 scalar_setters_validated [of "Val (PInt (- 1))" 255 example_grammar example_collab
        switch_node "PInt 9" "PInt 7"]
    by blast
  have r4: "heartbeat (snd (set_heartbeat ?ext (Val (PInt 9)) switch_node)) = PInt 9"
    using b2 scalar_setters_validated [of "Val (PInt (- 1))" 255 example_grammar example_collab
        switch_node "PInt 9" "PInt 7"]
    by blast
  have r5: "set_protocol_version ?ext (Val (PStr ''0.9'')) switch_node =
      (Inl Invalid, switch_node)"
    using c1 scalar_setters_validated [of "Val (PStr ''0.9'')" 255 example_grammar
        example_collab switch_node "PStr ''2.0''" "PInt 7"]
    by blast
  have r6: "protocol_version (snd (set_protocol_version ?ext (Val (PStr ''2.0'')) switch_node)) =
      PStr ''2.0''"
    using c2 scalar_setters_validated [of "Val (PStr ''0.9'')" 255 example_grammar
        example_collab switch_node "PStr ''2.0''" "PInt 7"]
    by blast
  have r7: "scalars_valid 255 example_grammar
      (snd (set_battery_level ?ext (Val (PInt 150)) switch_node))"
    using inv scalar_setters_validated [of "Val (PInt 150)" 255 example_grammar example_collab
        switch_node "PInt 50" "PInt 7"]
    by blast
  show ?thesis
    using a1 a2 b1 b2 c1 c2 d1 d2 inv r1 r2 r3 r4 r5 r6 r7 by blast
qed

section \<open>The invariant of the reachable sensors\<close>

lemma inv_keys:
  assumes "sensor_inv s"
  shows "fst ` set (new_state s) \<subseteq> fst ` set (children s)"
proof
  fix k assume "k \<in> fst ` set (new_state s)"
  then obtain x where x: "x \<in> set (new_state s)" and k: "k = fst x" by blast
  have "agrees (children s) x"
    using assms x by (simp add: sensor_inv_def)
  then have "map_of (children s) k \<noteq> None"
    using k by (auto simp: agrees_def split: option.splits)
  then show "k \<in> fst ` set (children s)"
    by (simp add: map_of_eq_None_iff)
qed

lemma set_setitem_subset: "set (setitem d k v) \<subseteq> insert (k, v) (set d)"
  by (induction d) (auto simp: setitem_def)

lemma keyed_setitem:
  assumes "keyed_by_id d" and "id_c c = k"
  shows "keyed_by_id (setitem d k c)"
proof -
  have "\<forall>x \<in> set (setitem d k c). id_c (snd x) = fst x"
  proof
    fix x assume "x \<in> set (setitem d k c)"
    then have "x = (k, c) \<or> x \<in> set d"
      using set_setitem_subset [of d k c] by blast
    then show "id_c (snd x) = fst x"
      using assms by (auto simp: keyed_by_id_def)
  qed
  then show ?thesis
    using assms(1) by (simp add: keyed_by_id_def distinct_setitem)
qed

lemma keyed_lookup:
  assumes "keyed_by_id d" and "map_of d k = Some c"
  shows "id_c c = k"
proof -
  have mem: "(k, c) \<in> set d"
    using assms(2) by (rule map_of_SomeD)
  have "\<forall>x \<in> set d. id_c (snd x) = fst x"
    using assms(1) by (simp add: keyed_by_id_def)
  then have "id_c (snd (k, c)) = fst (k, c)"
    using mem by (rule bspec)
  then show ?thesis by simp
qed

lemma dom_setitem: "fst ` set (setitem d k v) = insert k (fst ` set d)"
  using AList.dom_update [of k v d] by (simp add: setitem_def)

lemma keys_setitem_present:
  assumes "map_of d k = Some c"
  shows "fst ` set (setitem d k c') = fst ` set d"
proof -
  have "(k, c) \<in> set d"
    using assms by (rule map_of_SomeD)
  then have "k \<in> fst ` set d"
    by (rule image_eqI [rotated]) simp
  then show ?thesis
    unfolding dom_setitem by (rule insert_absorb)
qed

lemma keys_init_loop:
  "fst ` set (init_loop cs ns) = fst ` set ns \<union> id_c ` set cs"
proof (induction cs arbitrary: ns)
  case Nil
  show ?case by simp
next
  case (Cons c cs)
  show ?case
  proof (cases "contains ns (id_c c)")
    case True
    then have "id_c c \<in> fst ` set ns" by (simp add: contains_def)
    then show ?thesis using True Cons.IH [of ns] by auto
  next
    case False
    then show ?thesis
      using Cons.IH [of "setitem ns (id_c c)
        (ChildSensor_init (id_c c) (type_c c) (description_c c))"]
      by (simp add: dom_setitem)
  qed
qed

lemma keyed_init_loop: "keyed_by_id ns \<Longrightarrow> keyed_by_id (init_loop cs ns)"
proof (induction cs arbitrary: ns)
  case Nil
  then show ?case by simp
next
  case (Cons c cs)
  let ?shadow = "ChildSensor_init (id_c c) (type_c c) (description_c c)"
  have "id_c ?shadow = id_c c" by (simp add: ChildSensor_init_def)
  then have "keyed_by_id (setitem ns (id_c c) ?shadow)"
    using Cons.prems by (rule keyed_setitem [rotated])
  then show ?case
    using Cons.IH Cons.prems by simp
qed

lemma keyed_values:
  assumes "keyed_by_id d"
  shows "id_c ` snd ` set d \<subseteq> fst ` set d"
proof
  fix i assume "i \<in> id_c ` snd ` set d"
  then obtain x where x: "x \<in> set d" and i: "i = id_c (snd x)" by blast
  have "id_c (snd x) = fst x"
    using assms x by (simp add: keyed_by_id_def)
  then show "i \<in> fst ` set d" using x i by simp
qed

lemma agrees_same_lookup:
  assumes "agrees ch x" and "map_of ch' (fst x) = map_of ch (fst x)"
  shows "agrees ch' x"
  using assms by (simp add: agrees_def)

lemma agrees_values:
  assumes "agrees ch (k, shadow)"
  shows "agrees ch (k, shadow\<lparr>values_c := vs\<rparr>)"
  using assms by (auto simp: agrees_def split: option.splits)

lemma agrees_child_values:
  assumes "agrees ch x" and "map_of ch k = Some child"
  shows "agrees (setitem ch k (child\<lparr>values_c := vs\<rparr>)) x"
  using assms by (auto simp: agrees_def map_of_setitem split: option.splits)

lemma keyed_map_of:
  assumes "keyed_by_id d" and "x \<in> set d"
  shows "map_of d (id_c (snd x)) = Some (snd x)"
proof -
  have "id_c (snd x) = fst x"
    using assms by (simp add: keyed_by_id_def)
  moreover have "map_of d (fst x) = Some (snd x)"
    using assms by (simp add: keyed_by_id_def)
  ultimately show ?thesis by simp
qed

lemma set_init_loop:
  "set (init_loop cs ns) \<subseteq>
     set ns \<union> (\<lambda>c. (id_c c, ChildSensor_init (id_c c) (type_c c) (description_c c))) ` set cs"
proof (induction cs arbitrary: ns)
  case Nil
  show ?case by simp
next
  case (Cons c cs)
  let ?new = "ChildSensor_init (id_c c) (type_c c) (description_c c)"
  show ?case
  proof (cases "contains ns (id_c c)")
    case True
    then show ?thesis using Cons.IH [of ns] by auto
  next
    case False
    have "set (setitem ns (id_c c) ?new) \<subseteq> insert (id_c c, ?new) (set ns)"
      by (rule set_setitem_subset)
    then show ?thesis
      using False Cons.IH [of "setitem ns (id_c c) ?new"] by auto
  qed
qed

lemma inv_created: "sensor_inv (Sensor_init sid)"
  by (simp add: sensor_inv_def Sensor_init_def keyed_by_id_def)

lemma inv_added:
  assumes "sensor_inv s"
  shows "sensor_inv (snd (add_child_sensor child_id child_type description s))"
proof (cases "contains (children s) child_id")
  case True
  then show ?thesis using assms by (simp add: add_child_sensor_def)
next
  case False
  let ?child = "ChildSensor_init child_id child_type description"
  have res: "snd (add_child_sensor child_id child_type description s) =
      s\<lparr>children := setitem (children s) child_id ?child\<rparr>"
    using False by (simp add: add_child_sensor_def)
  have "id_c ?child = child_id" by (simp add: ChildSensor_init_def)
  then have keyed: "keyed_by_id (setitem (children s) child_id ?child)"
    using assms keyed_setitem by (simp add: sensor_inv_def)
  have "\<forall>x \<in> set (new_state s). agrees (setitem (children s) child_id ?child) x"
  proof
    fix x assume x: "x \<in> set (new_state s)"
    then have "fst x \<in> fst ` set (children s)"
      using inv_keys [OF assms] by blast
    then have "fst x \<noteq> child_id"
      using False by (auto simp: contains_def)
    then have "map_of (setitem (children s) child_id ?child) (fst x) =
        map_of (children s) (fst x)"
      by (simp add: map_of_setitem)
    moreover have "agrees (children s) x"
      using assms x by (simp add: sensor_inv_def)
    ultimately show "agrees (setitem (children s) child_id ?child) x"
      using agrees_same_lookup by blast
  qed
  then show ?thesis
    using assms keyed by (simp add: res sensor_inv_def)
qed

lemma inv_smart_sleep:
  assumes "sensor_inv s"
  shows "sensor_inv (snd (init_smart_sleep_mode s))"
proof -
  let ?ns = "init_loop (map snd (children s)) (new_state s)"
  have keyed: "keyed_by_id ?ns"
    using assms keyed_init_loop by (simp add: sensor_inv_def)
  have "\<forall>x \<in> set ?ns. agrees (children s) x"
  proof
    fix x assume "x \<in> set ?ns"
    then consider "x \<in> set (new_state s)"
      | c where "c \<in> set (map snd (children s))"
          "x = (id_c c, ChildSensor_init (id_c c) (type_c c) (description_c c))"
      using set_init_loop [of "map snd (children s)" "new_state s"] by blast
    then show "agrees (children s) x"
    proof cases
      case 1
      then show ?thesis using assms by (simp add: sensor_inv_def)
    next
      case 2
      from 2(1) obtain y where y: "y \<in> set (children s)" and c: "c = snd y" by auto
      have "map_of (children s) (id_c c) = Some c"
        using keyed_map_of [OF _ y] assms c by (simp add: sensor_inv_def)
      then show ?thesis
        using 2(2) by (simp add: agrees_def ChildSensor_init_def)
    qed
  qed
  then show ?thesis
    using assms keyed by (simp add: sensor_inv_def init_smart_sleep_mode_def)
qed

lemma inv_shadow_values:
  assumes "sensor_inv s" and sh: "map_of (new_state s) child_id = Some shadow"
  shows "sensor_inv (s\<lparr>new_state := setitem (new_state s) child_id
                        (shadow\<lparr>values_c := vs\<rparr>)\<rparr>)"
proof -
  let ?shadow = "shadow\<lparr>values_c := vs\<rparr>"
  have "id_c ?shadow = child_id"
    using keyed_lookup [OF _ sh] assms(1) by (simp add: sensor_inv_def)
  then have keyed: "keyed_by_id (setitem (new_state s) child_id ?shadow)"
    using assms(1) keyed_setitem by (simp add: sensor_inv_def)
  have old: "agrees (children s) (child_id, shadow)"
    using assms(1) map_of_SomeD [OF sh] by (simp add: sensor_inv_def)
  have "\<forall>x \<in> set (setitem (new_state s) child_id ?shadow). agrees (children s) x"
  proof
    fix x assume "x \<in> set (setitem (new_state s) child_id ?shadow)"
    then have "x = (child_id, ?shadow) \<or> x \<in> set (new_state s)"
      using set_setitem_subset [of "new_state s" child_id ?shadow] by blast
    then show "agrees (children s) x"
      using agrees_values [OF old] assms(1) by (auto simp: sensor_inv_def)
  qed
  then show ?thesis
    using assms(1) keyed by (simp add: sensor_inv_def)
qed

lemma inv_child_values:
  assumes "sensor_inv s" and ch: "map_of (children s) child_id = Some child"
  shows "sensor_inv (s\<lparr>children := setitem (children s) child_id
                        (child\<lparr>values_c := vs\<rparr>)\<rparr>)"
proof -
  let ?child = "child\<lparr>values_c := vs\<rparr>"
  have "id_c ?child = child_id"
    using keyed_lookup [OF _ ch] assms(1) by (simp add: sensor_inv_def)
  then have keyed: "keyed_by_id (setitem (children s) child_id ?child)"
    using assms(1) keyed_setitem by (simp add: sensor_inv_def)
  have "\<forall>x \<in> set (new_state s). agrees (setitem (children s) child_id ?child) x"
    using assms(1) agrees_child_values [OF _ ch] by (simp add: sensor_inv_def)
  then show ?thesis
    using assms(1) keyed by (simp add: sensor_inv_def)
qed

lemma inv_desired:
  assumes "sensor_inv s"
  shows "sensor_inv (snd (set_child_desired_state ext child_id value_type value s))"
proof (cases "\<exists>shadow. map_of (new_state s) child_id = Some shadow \<and>
    validate_child_state ext s child_id value_type value = Inr True")
  case True
  then obtain shadow where sh: "map_of (new_state s) child_id = Some shadow"
    and ok: "validate_child_state ext s child_id value_type value = Inr True" by blast
  have res: "snd (set_child_desired_state ext child_id value_type value s) =
      s\<lparr>new_state := setitem (new_state s) child_id
           (shadow\<lparr>values_c := setitem (values_c shadow) value_type value\<rparr>)\<rparr>"
    using sh ok by (simp add: set_child_desired_state_def contains_map_of getitem_def)
  show ?thesis
    unfolding res using assms sh by (rule inv_shadow_values)
next
  case False
  then have "snd (set_child_desired_state ext child_id value_type value s) = s"
    by (auto simp: set_child_desired_state_def contains_map_of getitem_def
          split: sum.splits option.splits)
  then show ?thesis using assms by simp
qed

lemma inv_updated:
  assumes "sensor_inv s"
  shows "sensor_inv (snd (update_child_value child_id value_type value s))"
proof (cases "map_of (children s) child_id")
  case None
  then show ?thesis using assms by (simp add: update_child_value_def getitem_def)
next
  case (Some child)
  let ?s1 = "s\<lparr>children := setitem (children s) child_id
                 (child\<lparr>values_c := setitem (values_c child) value_type value\<rparr>)\<rparr>"
  have s1: "sensor_inv ?s1"
    using assms Some by (rule inv_child_values)
  show ?thesis
  proof (cases "map_of (new_state s) child_id")
    case None
    then have "snd (update_child_value child_id value_type value s) = ?s1"
      using Some by (simp add: update_child_value_def getitem_def contains_map_of Let_def)
    then show ?thesis using s1 by simp
  next
    case (Some shadow)
    have res: "snd (update_child_value child_id value_type value s) =
        ?s1\<lparr>new_state := setitem (new_state ?s1) child_id
               (shadow\<lparr>values_c := setitem (values_c shadow) value_type PNone\<rparr>)\<rparr>"
      using Some \<open>map_of (children s) child_id = Some child\<close>
      by (simp add: update_child_value_def getitem_def contains_map_of Let_def)
    have "map_of (new_state ?s1) child_id = Some shadow"
      using Some by simp
    with s1 show ?thesis
      unfolding res by (rule inv_shadow_values)
  qed
qed

lemma inv_scalars:
  assumes "sensor_inv s"
  shows "sensor_inv (snd (set_battery_level ext x s))"
    and "sensor_inv (snd (set_heartbeat ext x s))"
    and "sensor_inv (snd (set_protocol_version ext x s))"
  using assms
  by (auto simp: sensor_inv_def set_battery_level_def set_heartbeat_def
        set_protocol_version_def split: sum.splits)

lemma inv_loaded:
  assumes "sensor_inv s" and "setstate ext (getstate s) = Inr d" and "sensor_of d = Some s'"
  shows "sensor_inv s'"
  using assms(1) load_resets [OF assms(2,3)]
  by (simp add: sensor_inv_def keyed_by_id_def)

lemma reachable_inv: "reachable s \<Longrightarrow> sensor_inv s"
proof (induction rule: reachable.induct)
  case (created sid)
  show ?case by (rule inv_created)
next
  case (added s child_id child_type description)
  then show ?case by (simp add: inv_added)
next
  case (smart_sleep s)
  then show ?case by (simp add: inv_smart_sleep)
next
  case (desired s ext child_id value_type "value")
  then show ?case by (simp add: inv_desired)
next
  case (updated s child_id value_type "value")
  then show ?case by (simp add: inv_updated)
next
  case (battery s ext x)
  then show ?case by (simp add: inv_scalars)
next
  case (beat s ext x)
  then show ?case by (simp add: inv_scalars)
next
  case (version s ext x)
  then show ?case by (simp add: inv_scalars)
next
  case (assigned s t n v q r)
  then show ?case by (simp add: sensor_inv_def)
next
  case (loaded s ext d s')
  then show ?case using inv_loaded by blast
qed

text \<open>
  C7. In every reachable sensor, so after every call of \<^verbatim>\<open>add_child_sensor\<close>,
  \<^verbatim>\<open>init_smart_sleep_mode\<close>, \<^verbatim>\<open>set_child_desired_state\<close>,
  \<^verbatim>\<open>update_child_value\<close> and after loading a saved record, every key of the
  desired-state mapping is a key of \<^verbatim>\<open>children\<close>.
\<close>

theorem desired_state_keys_are_children:
  assumes "reachable s"
  shows "\<forall>k. contains (new_state s) k \<longrightarrow> contains (children s) k"
  using inv_keys [OF reachable_inv [OF assms]] by (auto simp: contains_def)

theorem desired_state_keys_are_children_witness:
  "reachable orphan_node \<and> contains (new_state orphan_node) 1 \<and>
   contains (children orphan_node) 1"
proof -
  have "reachable (Sensor_init (PInt 7))" by (rule reachable.created)
  then have "reachable switch_node"
    unfolding switch_node_def by (rule reachable.added)
  then have "reachable sleepy_node"
    unfolding sleepy_node_def by (rule reachable.smart_sleep)
  then have r: "reachable orphan_node"
    unfolding orphan_node_def by (rule reachable.added)
  have k: "contains (new_state orphan_node) 1"
    by (simp add: orphan_node_eq sleepy_node_eq switch_node_eq contains_def)
  show ?thesis
    using r k desired_state_keys_are_children [OF r] by blast
qed

lemma map_of_init_loop_kept:
  assumes "map_of ns k = Some shadow"
  shows "map_of (init_loop cs ns) k = Some shadow"
  using assms
proof (induction cs arbitrary: ns)
  case Nil
  then show ?case by simp
next
  case (Cons c cs)
  let ?new = "ChildSensor_init (id_c c) (type_c c) (description_c c)"
  show ?case
  proof (cases "contains ns (id_c c)")
    case True
    then show ?thesis using Cons by simp
  next
    case False
    then have "id_c c \<noteq> k"
      using Cons.prems by (auto simp: contains_map_of)
    then have "map_of (setitem ns (id_c c) ?new) k = Some shadow"
      using Cons.prems by (simp add: map_of_setitem)
    then show ?thesis
      using False Cons.IH [of "setitem ns (id_c c) ?new"] by simp
  qed
qed

lemma map_of_init_loop_created:
  assumes "distinct (map id_c cs)" and "c \<in> set cs" and "\<not> contains ns (id_c c)"
  shows "map_of (init_loop cs ns) (id_c c) =
           Some (ChildSensor_init (id_c c) (type_c c) (description_c c))"
  using assms
proof (induction cs arbitrary: ns)
  case Nil
  then show ?case by simp
next
  case (Cons a cs)
  let ?new = "ChildSensor_init (id_c a) (type_c a) (description_c a)"
  show ?case
  proof (cases "c = a")
    case True
    have "map_of (setitem ns (id_c a) ?new) (id_c a) = Some ?new"
      by (simp add: map_of_setitem)
    then have "map_of (init_loop cs (setitem ns (id_c a) ?new)) (id_c a) = Some ?new"
      by (rule map_of_init_loop_kept)
    then show ?thesis
      using True Cons.prems(3) by simp
  next
    case False
    then have c: "c \<in> set cs" using Cons.prems(2) by simp
    then have "id_c c \<in> id_c ` set cs" by (rule imageI)
    moreover have "id_c a \<notin> id_c ` set cs" using Cons.prems(1) by simp
    ultimately have ne: "id_c c \<noteq> id_c a" by metis
    have d: "distinct (map id_c cs)" using Cons.prems(1) by simp
    show ?thesis
    proof (cases "contains ns (id_c a)")
      case True
      then show ?thesis using Cons.IH [OF d c Cons.prems(3)] by simp
    next
      case False
      have "\<not> contains (setitem ns (id_c a) ?new) (id_c c)"
        using Cons.prems(3) ne by (simp add: contains_setitem)
      then show ?thesis
        using False Cons.IH [OF d c] by simp
    qed
  qed
qed

lemma init_loop_all_present:
  assumes "\<forall>c \<in> set cs. contains ns (id_c c)"
  shows "init_loop cs ns = ns"
  using assms by (induction cs) simp_all

lemma init_loop_idem: "init_loop cs (init_loop cs ns) = init_loop cs ns"
proof (rule init_loop_all_present)
  show "\<forall>c \<in> set cs. contains (init_loop cs ns) (id_c c)"
    by (simp add: contains_def keys_init_loop)
qed

lemma keyed_distinct_ids:
  assumes "keyed_by_id d"
  shows "distinct (map id_c (map snd d))"
proof -
  have eq: "map (id_c \<circ> snd) d = map fst d"
    using assms by (simp add: keyed_by_id_def)
  have "distinct (map fst d)"
    using assms by (simp add: keyed_by_id_def)
  then have "distinct (map (id_c \<circ> snd) d)"
    by (simp only: eq)
  then show ?thesis by simp
qed

section \<open>Entering smart-sleep mode\<close>

text \<open>
  C8, as claimed: after \<^verbatim>\<open>init_smart_sleep_mode()\<close> every child has a shadow with
  an empty value map. On the node whose child 1 has the pending desired value
  \<^verbatim>\<open>"1"\<close>, the call leaves that shadow as it is, so its value map is not empty.
\<close>

theorem init_smart_sleep_mode_keeps_values_counterexample:
  "map_of (children pending_node) 1 =
     Some \<lparr>id_c = 1, type_c = 3, description_c = ''sw'', values_c = [(2, PStr ''0'')]\<rparr> \<and>
   map_of (new_state (snd (init_smart_sleep_mode pending_node))) 1 =
     Some \<lparr>id_c = 1, type_c = 3, description_c = ''sw'', values_c = [(2, PStr ''1'')]\<rparr> \<and>
   map_option values_c (map_of (new_state (snd (init_smart_sleep_mode pending_node))) 1) \<noteq>
     Some []"
  by (simp add: pending_node_eq switch_node_eq init_smart_sleep_mode_def contains_def)

text \<open>
  C8, amended. On a sensor that satisfies the invariant of the reachable sensors,
  \<^verbatim>\<open>init_smart_sleep_mode()\<close> does not raise and changes \<^verbatim>\<open>new_state\<close> only;
  afterwards every child has a shadow under its id with the child's id, type and
  description, and the value map of a shadow that the call created is empty. Every
  shadow that existed before the call is left as it was, value map included, and a
  second call changes nothing.
\<close>

theorem init_smart_sleep_mode_spec:
  assumes "sensor_inv s"
  shows "fst (init_smart_sleep_mode s) = Inr () \<and>
         snd (init_smart_sleep_mode s) =
           s\<lparr>new_state := new_state (snd (init_smart_sleep_mode s))\<rparr> \<and>
         (\<forall>c \<in> set (map snd (children s)).
            \<exists>shadow. map_of (new_state (snd (init_smart_sleep_mode s))) (id_c c) = Some shadow \<and>
              id_c shadow = id_c c \<and> type_c shadow = type_c c \<and>
              description_c shadow = description_c c \<and>
              (\<not> contains (new_state s) (id_c c) \<longrightarrow> values_c shadow = [])) \<and>
         (\<forall>k shadow. map_of (new_state s) k = Some shadow \<longrightarrow>
            map_of (new_state (snd (init_smart_sleep_mode s))) k = Some shadow) \<and>
         init_smart_sleep_mode (snd (init_smart_sleep_mode s)) =
           (Inr (), snd (init_smart_sleep_mode s))"
proof -
  let ?cs = "map snd (children s)"
  let ?ns = "init_loop ?cs (new_state s)"
  have res: "init_smart_sleep_mode s = (Inr (), s\<lparr>new_state := ?ns\<rparr>)"
    by (simp add: init_smart_sleep_mode_def)
  have kept: "\<forall>k shadow. map_of (new_state s) k = Some shadow \<longrightarrow> map_of ?ns k = Some shadow"
    using map_of_init_loop_kept by blast
  have idem: "init_smart_sleep_mode (s\<lparr>new_state := ?ns\<rparr>) = (Inr (), s\<lparr>new_state := ?ns\<rparr>)"
    by (simp add: init_smart_sleep_mode_def init_loop_idem)
  have each: "\<forall>c \<in> set ?cs.
      \<exists>shadow. map_of ?ns (id_c c) = Some shadow \<and>
        id_c shadow = id_c c \<and> type_c shadow = type_c c \<and>
        description_c shadow = description_c c \<and>
        (\<not> contains (new_state s) (id_c c) \<longrightarrow> values_c shadow = [])"
  proof
    fix c assume c: "c \<in> set ?cs"
    then obtain y where y: "y \<in> set (children s)" and cy: "c = snd y" by auto
    have child: "map_of (children s) (id_c c) = Some c"
      using keyed_map_of [OF _ y] assms cy by (simp add: sensor_inv_def)
    show "\<exists>shadow. map_of ?ns (id_c c) = Some shadow \<and>
        id_c shadow = id_c c \<and> type_c shadow = type_c c \<and>
        description_c shadow = description_c c \<and>
        (\<not> contains (new_state s) (id_c c) \<longrightarrow> values_c shadow = [])"
    proof (cases "map_of (new_state s) (id_c c)")
      case None
      then have fresh: "\<not> contains (new_state s) (id_c c)"
        by (simp add: contains_map_of)
      have "distinct (map id_c ?cs)"
        using assms keyed_distinct_ids by (simp add: sensor_inv_def)
      then have "map_of ?ns (id_c c) =
          Some (ChildSensor_init (id_c c) (type_c c) (description_c c))"
        using c fresh by (rule map_of_init_loop_created)
      then show ?thesis by (simp add: ChildSensor_init_def)
    next
      case (Some shadow)
      then have present: "contains (new_state s) (id_c c)"
        by (simp add: contains_map_of)
      have mem: "(id_c c, shadow) \<in> set (new_state s)"
        using Some by (rule map_of_SomeD)
      then have "agrees (children s) (id_c c, shadow)"
        using assms by (simp add: sensor_inv_def)
      then have same: "type_c shadow = type_c c \<and> description_c shadow = description_c c"
        using child by (simp add: agrees_def)
      have "id_c shadow = id_c c"
        using keyed_lookup [OF _ Some] assms by (simp add: sensor_inv_def)
      moreover have "map_of ?ns (id_c c) = Some shadow"
        using Some by (rule map_of_init_loop_kept)
      ultimately show ?thesis using same present by simp
    qed
  qed
  show ?thesis
    using kept idem each by (simp add: res)
qed

theorem init_smart_sleep_mode_spec_witness:
  "sensor_inv orphan_node \<and> \<not> contains (new_state orphan_node) 2 \<and>
   map_of (new_state (snd (init_smart_sleep_mode orphan_node))) 2 =
     Some \<lparr>id_c = 2, type_c = 3, description_c = ''late'', values_c = []\<rparr> \<and>
   map_of (new_state orphan_node) 1 =
     Some \<lparr>id_c = 1, type_c = 3, description_c = ''sw'', values_c = []\<rparr> \<and>
   map_of (new_state (snd (init_smart_sleep_mode orphan_node))) 1 =
     Some \<lparr>id_c = 1, type_c = 3, description_c = ''sw'', values_c = []\<rparr> \<and>
   init_smart_sleep_mode (snd (init_smart_sleep_mode orphan_node)) =
     (Inr (), snd (init_smart_sleep_mode orphan_node))"
proof -
  have inv: "sensor_inv orphan_node"
    by (simp add: orphan_node_eq sleepy_node_eq switch_node_eq sensor_inv_def keyed_by_id_def
          agrees_def)
  have fresh: "\<not> contains (new_state orphan_node) 2"
    by (simp add: orphan_node_eq sleepy_node_eq switch_node_eq contains_def)
  have old: "map_of (new_state orphan_node) 1 =
      Some \<lparr>id_c = 1, type_c = 3, description_c = ''sw'', values_c = []\<rparr>"
    by (simp add: orphan_node_eq sleepy_node_eq switch_node_eq)
  have child: "\<lparr>id_c = 2, type_c = 3, description_c = ''late'', values_c = []\<rparr>
      \<in> set (map snd (children orphan_node))"
    by (simp add: orphan_node_eq sleepy_node_eq switch_node_eq)
  note spec = init_smart_sleep_mode_spec [OF inv]
  from spec child fresh obtain shadow where
    sh: "map_of (new_state (snd (init_smart_sleep_mode orphan_node))) 2 = Some shadow"
    and f: "id_c shadow = 2 \<and> type_c shadow = 3 \<and> description_c shadow = ''late'' \<and>
      values_c shadow = []"
    by fastforce
  have "shadow = \<lparr>id_c = 2, type_c = 3, description_c = ''late'', values_c = []\<rparr>"
    using f by (cases shadow) simp
  then have new: "map_of (new_state (snd (init_smart_sleep_mode orphan_node))) 2 =
      Some \<lparr>id_c = 2, type_c = 3, description_c = ''late'', values_c = []\<rparr>"
    using sh by simp
  have kept: "map_of (new_state (snd (init_smart_sleep_mode orphan_node))) 1 =
      Some \<lparr>id_c = 1, type_c = 3, description_c = ''sw'', values_c = []\<rparr>"
    using spec old by blast
  have idem: "init_smart_sleep_mode (snd (init_smart_sleep_mode orphan_node)) =
      (Inr (), snd (init_smart_sleep_mode orphan_node))"
    using spec by blast
  show ?thesis
    using inv fresh new old kept idem by blast
qed

section \<open>The schema of a child\<close>

lemma schema_comp_ok:
  assumes "\<forall>t \<in> set typs. contains (VALID_SETREQ const) t"
  shows "\<exists>sch. schema_comp const typs acc = Inr sch"
  using assms
proof (induction typs arbitrary: acc)
  case Nil
  show ?case by simp
next
  case (Cons t typs)
  then obtain f where "map_of (VALID_SETREQ const) t = Some f"
    by (auto simp: contains_map_of)
  then show ?case using Cons by (simp add: getitem_def)
qed

lemma schema_comp_table:
  assumes "schema_comp const typs acc = Inr sch"
  shows "map_of sch k = (if k \<in> set typs then map_of (VALID_SETREQ const) k else map_of acc k)"
  using assms
proof (induction typs arbitrary: acc)
  case Nil
  then show ?case by simp
next
  case (Cons t typs)
  from Cons.prems obtain f where f: "map_of (VALID_SETREQ const) t = Some f"
    and rest: "schema_comp const typs (setitem acc t f) = Inr sch"
    by (auto simp: getitem_def split: option.splits)
  show ?case
    using Cons.IH [OF rest] f by (simp add: map_of_setitem)
qed

lemma schema_comp_distinct:
  assumes "schema_comp const typs acc = Inr sch" and "distinct (map fst acc)"
  shows "distinct (map fst sch)"
  using assms
proof (induction typs arbitrary: acc)
  case Nil
  then show ?case by simp
next
  case (Cons t typs)
  from Cons.prems(1) obtain f where
    rest: "schema_comp const typs (setitem acc t f) = Inr sch"
    by (auto simp: getitem_def split: option.splits)
  show ?case
    using Cons.IH [OF rest] Cons.prems(2) by (simp add: distinct_setitem)
qed

lemma map_of_extend:
  assumes "distinct (map fst ext_schema)"
  shows "map_of (extend result ext_schema) k =
           (case map_of ext_schema k of Some f \<Rightarrow> Some f | None \<Rightarrow> map_of result k)"
  using assms
proof (induction ext_schema arbitrary: result)
  case Nil
  show ?case by simp
next
  case (Cons x rest)
  obtain key v where x: "x = (key, v)" by (cases x)
  let ?next = "if contains result key then setitem (AList.delete key result) key v
               else setitem result key v"
  have step: "extend result (x # rest) = extend ?next rest"
    by (simp add: x)
  have nxt: "map_of ?next = (map_of result)(key \<mapsto> v)"
    by (auto simp: map_of_setitem AList.delete_conv')
  have fresh: "map_of rest key = None"
    using Cons.prems x by (simp add: map_of_eq_None_iff)
  have d: "distinct (map fst rest)" using Cons.prems by simp
  show ?case
    unfolding step Cons.IH [OF d] nxt using fresh x
    by (simp split: option.splits)
qed

lemma satisfies_spec_Cons:
  "satisfies_spec sch (x # vs) =
     ((case sch (fst x) of None \<Rightarrow> False | Some f \<Rightarrow> f (snd x) \<noteq> None) \<and>
      satisfies_spec sch vs)"
  by (simp add: satisfies_spec_def)

lemma schema_call_accepts:
  "(\<exists>out. schema_call sch vs = Inr out) \<longleftrightarrow> satisfies_spec (map_of sch) vs"
proof (induction vs)
  case Nil
  show ?case by (simp add: satisfies_spec_def)
next
  case (Cons x vs)
  obtain k v where x: "x = (k, v)" by (cases x)
  show ?case
  proof (cases "map_of sch k")
    case None
    then show ?thesis by (simp add: x satisfies_spec_Cons)
  next
    case (Some f)
    show ?thesis
    proof (cases "f v")
      case None
      then show ?thesis using Some by (simp add: x satisfies_spec_Cons)
    next
      case (Some v')
      show ?thesis
      proof (cases "schema_call sch vs")
        case (Inl e)
        then have "\<not> satisfies_spec (map_of sch) vs"
          using Cons.IH by simp
        then show ?thesis
          using Inl Some \<open>map_of sch k = Some f\<close> by (simp add: x satisfies_spec_Cons)
      next
        case (Inr out)
        then have "satisfies_spec (map_of sch) vs"
          using Cons.IH by simp
        then show ?thesis
          using Inr Some \<open>map_of sch k = Some f\<close> by (simp add: x satisfies_spec_Cons)
      qed
    qed
  qed
qed

lemma schema_call_rejects:
  "schema_call sch vs = Inl e \<Longrightarrow> e = Invalid"
proof (induction vs arbitrary: e)
  case Nil
  then show ?case by simp
next
  case (Cons x vs)
  obtain k v where x: "x = (k, v)" by (cases x)
  show ?case
    using Cons unfolding x by (auto split: option.splits sum.splits)
qed

text \<open>
  C10. When the constant table of the protocol version lists the value types of
  \<^verbatim>\<open>S_CUSTOM\<close> and of the child's type, and \<^verbatim>\<open>VALID_SETREQ\<close> has a validator
  for each listed type, \<^verbatim>\<open>get_schema\<close> returns a schema that is, as a table, the
  generic custom-sensor field table extended by the field table of the child's type,
  the type-specific entry winning on a shared key. \<^verbatim>\<open>validate\<close> runs that schema
  on the supplied value map, or on the child's own values when none is supplied, and
  accepts exactly the value maps that satisfy the merged schema; it rejects every
  other with \<^verbatim>\<open>vol.Invalid\<close>.
\<close>

theorem get_schema_validate_spec:
  assumes const: "get_const ext pv = Inr const"
    and custom: "map_of (VALID_TYPES const) (S_CUSTOM const) = Some custom_typs"
    and own: "map_of (VALID_TYPES const) (type_c c) = Some typs"
    and listed: "\<forall>t \<in> set custom_typs \<union> set typs. contains (VALID_SETREQ const) t"
  shows "\<exists>sch. get_schema ext c pv = Inr sch \<and>
           map_of sch =
             merged_schema_spec (field_table const custom_typs) (field_table const typs) \<and>
           validate ext c pv None = schema_call sch (values_c c) \<and>
           (\<forall>vs. validate ext c pv (Some vs) = schema_call sch vs) \<and>
           (\<forall>vs. (\<exists>out. schema_call sch vs = Inr out) \<longleftrightarrow> satisfies_spec (map_of sch) vs) \<and>
           (\<forall>vs. \<not> satisfies_spec (map_of sch) vs \<longrightarrow> schema_call sch vs = Inl Invalid)"
proof -
  obtain custom_schema where cs: "schema_comp const custom_typs [] = Inr custom_schema"
    using schema_comp_ok [of custom_typs const "[]"] listed by auto
  obtain type_schema where ts: "schema_comp const typs [] = Inr type_schema"
    using schema_comp_ok [of typs const "[]"] listed by auto
  let ?sch = "extend custom_schema type_schema"
  have gs: "get_schema ext c pv = Inr ?sch"
    using const custom own cs ts by (simp add: get_schema_def getitem_def)
  have ctab: "map_of custom_schema = field_table const custom_typs"
    using schema_comp_table [OF cs] by (auto simp: field_table_def)
  have ttab: "map_of type_schema = field_table const typs"
    using schema_comp_table [OF ts] by (auto simp: field_table_def)
  have dist: "distinct (map fst type_schema)"
    using schema_comp_distinct [OF ts] by simp
  have merged: "map_of ?sch =
      merged_schema_spec (field_table const custom_typs) (field_table const typs)"
  proof (rule ext)
    fix k
    show "map_of ?sch k =
        merged_schema_spec (field_table const custom_typs) (field_table const typs) k"
      unfolding map_of_extend [OF dist] merged_schema_spec_def ctab ttab by simp
  qed
  have v1: "validate ext c pv None = schema_call ?sch (values_c c)"
    by (simp add: validate_def gs)
  have v2: "\<forall>vs. validate ext c pv (Some vs) = schema_call ?sch vs"
    by (simp add: validate_def gs)
  have acc: "\<forall>vs. (\<exists>out. schema_call ?sch vs = Inr out) \<longleftrightarrow> satisfies_spec (map_of ?sch) vs"
    using schema_call_accepts by blast
  have rej: "\<forall>vs. \<not> satisfies_spec (map_of ?sch) vs \<longrightarrow> schema_call ?sch vs = Inl Invalid"
  proof (intro allI impI)
    fix vs assume "\<not> satisfies_spec (map_of ?sch) vs"
    then have "\<not> (\<exists>out. schema_call ?sch vs = Inr out)"
      using schema_call_accepts by blast
    then obtain e where "schema_call ?sch vs = Inl e"
      by (cases "schema_call ?sch vs") auto
    then show "schema_call ?sch vs = Inl Invalid"
      using schema_call_rejects by blast
  qed
  show ?thesis
    using gs merged v1 v2 acc rej by blast
qed

theorem get_schema_validate_spec_witness:
  "get_const example_collab (PStr ''1.4'') = Inr example_const \<and>
   map_of (VALID_TYPES example_const) (S_CUSTOM example_const) = Some [24, 25] \<and>
   map_of (VALID_TYPES example_const) (type_c meter_child) = Some [17, 24] \<and>
   contains (VALID_SETREQ example_const) 17 \<and>
   contains (VALID_SETREQ example_const) 24 \<and>
   contains (VALID_SETREQ example_const) 25 \<and>
   validate example_collab meter_child (PStr ''1.4'') None =
     Inr [(17, PStr ''230''), (24, PStr ''9'')] \<and>
   validate example_collab meter_child (PStr ''1.4'') (Some [(2, PStr ''1'')]) = Inl Invalid"
proof -
  have a: "get_const example_collab (PStr ''1.4'') = Inr example_const"
    by (simp add: example_collab_def)
  have b: "map_of (VALID_TYPES example_const) (S_CUSTOM example_const) = Some [24, 25]"
    by (simp add: example_const_def)
  have c: "map_of (VALID_TYPES example_const) (type_c meter_child) = Some [17, 24]"
    by (simp add: example_const_def meter_child_def ChildSensor_init_def)
  have d: "contains (VALID_SETREQ example_const) 17 \<and>
      contains (VALID_SETREQ example_const) 24 \<and> contains (VALID_SETREQ example_const) 25"
    by (simp add: example_const_def contains_def)
  then have d': "\<forall>t \<in> set [24, 25] \<union> set [17, 24]. contains (VALID_SETREQ example_const) t"
    by simp
  from get_schema_validate_spec [OF a b c d'] obtain sch where
    m: "map_of sch =
      merged_schema_spec (field_table example_const [24, 25]) (field_table example_const [17, 24])"
    and v1: "validate example_collab meter_child (PStr ''1.4'') None =
      schema_call sch (values_c meter_child)"
    and v2: "\<forall>vs. validate example_collab meter_child (PStr ''1.4'') (Some vs) =
      schema_call sch vs"
    by blast
  have r1: "validate example_collab meter_child (PStr ''1.4'') None =
      Inr [(17, PStr ''230''), (24, PStr ''9'')]"
    unfolding v1
    by (simp add: m meter_child_def ChildSensor_init_def merged_schema_spec_def field_table_def
          example_const_def any_string_def)
  have "schema_call sch [(2, PStr ''1'')] = Inl Invalid"
    by (simp add: m merged_schema_spec_def field_table_def)
  then have r2: "validate example_collab meter_child (PStr ''1.4'') (Some [(2, PStr ''1'')]) =
      Inl Invalid"
    using v2 by metis
  show ?thesis
    using a b c d r1 r2 by blast
qed

end
